theory Spec2Isabelle
  imports Main "HOL-Library.AList"
begin

section \<open>JavaScript values used by the server\<close>

text \<open>
  The server module keeps its state in JavaScript \<open>Map\<close>s and \<open>Set\<close>s, which iterate in
  insertion order.  A \<open>Map\<close> is an association list with unique keys: \<open>get\<close> is
  \<^const>\<open>map_of\<close>, \<open>set\<close> is \<^const>\<open>AList.update\<close> (an existing key keeps its place, a
  new key goes to the end), \<open>delete\<close> is \<^const>\<open>AList.delete\<close>.  A \<open>Set\<close> of strings
  is a list without duplicates.  Clock readings (\<open>Date.now()\<close>) are integers that the
  environment supplies to every handler.
\<close>

definition has :: "('k \<times> 'v) list \<Rightarrow> 'k \<Rightarrow> bool" where
  "has m k = (map_of m k \<noteq> None)"

definition set_add :: "'a \<Rightarrow> 'a list \<Rightarrow> 'a list" where
  "set_add x xs = (if x \<in> set xs then xs else xs @ [x])"

definition set_delete :: "'a \<Rightarrow> 'a list \<Rightarrow> 'a list" where
  "set_delete x xs = removeAll x xs"

text \<open>
  Truthiness of a value of type \<open>string | null | undefined\<close>: \<open>null\<close> and
  \<open>undefined\<close> are \<^const>\<open>None\<close>, and the empty string is falsy as well.
\<close>

fun truthy :: "string option \<Rightarrow> bool" where
  "truthy None = False"
| "truthy (Some r) = (r \<noteq> [])"

section \<open>Rate limiter\<close>

text \<open>
  \<^verbatim>\<open>
  const rateMap = new Map<string, { count: number; ts: number }>()
  function rateLimit(key: string, limit = 60, windowMs = 60_000) {
    const now = Date.now()
    const cur = rateMap.get(key)
    if (!cur || now - cur.ts > windowMs) { rateMap.set(key, { count: 1, ts: now }); return true }
    if (cur.count >= limit) return false
    cur.count++
    return true
  }
  \<close>
\<close>

record rate_entry =
  count :: int
  ts :: int

type_synonym rate_map = "(string \<times> rate_entry) list"

definition rateLimit :: "string \<Rightarrow> int \<Rightarrow> int \<Rightarrow> int \<Rightarrow> rate_map \<Rightarrow> bool \<times> rate_map" where
  "rateLimit key limit windowMs now rateMap =
     (case map_of rateMap key of
        None \<Rightarrow> (True, AList.update key \<lparr>count = 1, ts = now\<rparr> rateMap)
      | Some cur \<Rightarrow>
          if now - ts cur > windowMs
          then (True, AList.update key \<lparr>count = 1, ts = now\<rparr> rateMap)
          else if count cur \<ge> limit then (False, rateMap)
          else (True, AList.update key (cur\<lparr>count := count cur + 1\<rparr>) rateMap))"

text \<open>
  Successive calls \<open>rateLimit(key, limit, windowMs)\<close>, each with its key and the clock
  reading it sees: the answers in call order and the final map.
\<close>

fun rate_calls :: "int \<Rightarrow> int \<Rightarrow> (string \<times> int) list \<Rightarrow> rate_map \<Rightarrow> bool list \<times> rate_map" where
  "rate_calls limit windowMs [] rateMap = ([], rateMap)"
| "rate_calls limit windowMs ((key, now) # calls) rateMap =
     (let (r, rateMap') = rateLimit key limit windowMs now rateMap;
          (rs, rateMap'') = rate_calls limit windowMs calls rateMap'
      in (r # rs, rateMap''))"

text \<open>The answers given to the calls that carry \<open>key\<close>.\<close>

definition answers_for :: "string \<Rightarrow> (string \<times> int) list \<Rightarrow> bool list \<Rightarrow> bool list" where
  "answers_for key calls rs = map snd (filter (\<lambda>(c, r). fst c = key) (zip calls rs))"

definition calls_of :: "string \<Rightarrow> (string \<times> int) list \<Rightarrow> (string \<times> int) list" where
  "calls_of key calls = filter (\<lambda>c. fst c = key) calls"

text \<open>A call at \<open>now\<close> opens a new window when the key has no entry or its window has expired.\<close>

definition window_expired :: "rate_map \<Rightarrow> string \<Rightarrow> int \<Rightarrow> int \<Rightarrow> bool" where
  "window_expired rateMap key windowMs now =
     (case map_of rateMap key of None \<Rightarrow> True | Some cur \<Rightarrow> now - ts cur > windowMs)"

text \<open>
  The claim's words, "exactly the first \<open>limit\<close> calls return true and every further
  call in that window returns false", for \<open>n\<close> calls in one window.
\<close>

definition first_limit_true :: "int \<Rightarrow> nat \<Rightarrow> bool list" where
  "first_limit_true limit n = map (\<lambda>i. int i < limit) [0..<n]"

section \<open>Server state\<close>

text \<open>
  \<^verbatim>\<open>type User = { id: string; name: string; userId?: string }\<close>;
  the message payload \<^verbatim>\<open>{ id, name, text, ts, room }\<close> that is emitted and the entry
  \<^verbatim>\<open>{ name, text, ts, room }\<close> that is stored;
  \<^verbatim>\<open>type CallState = { room; type; participants: Set<string>; startedAt; initiator }\<close>
  and the call log entry
  \<^verbatim>\<open>{ callId; room; type; startedAt; endedAt?; initiator; participants: string[] }\<close>.
  Fields of different records that share a name in the source carry a prefix here.
\<close>

record user =
  id' :: string
  name :: string
  userId :: "string option"

record message_payload =
  msg_id :: string
  msg_name :: string
  msg_text :: string
  msg_ts :: int
  msg_room :: "string option"

record stored_message =
  st_name :: string
  st_text :: string
  st_ts :: int
  st_room :: "string option"

datatype CallType = audio | video

record CallState =
  room :: "string option"
  type' :: CallType
  participants :: "string list"
  startedAt :: int
  initiator :: string

record CallLog =
  callId :: string
  log_room :: "string option"
  log_type :: CallType
  log_startedAt :: int
  endedAt :: "int option"
  log_initiator :: string
  log_participants :: "string list"

text \<open>
  The events the server emits, by their wire names, with their payloads; session
  descriptions are opaque strings.
\<close>

datatype event =
    Ev_user_join string string
  | Ev_users "user list"
  | Ev_room_join string "string option" string
  | Ev_room_leave string "string option" string
  | Ev_usersInRoom "user list"
  | Ev_message message_payload
  | Ev_user_leave string string
  | Ev_webrtc_offer string string "CallType option" "string option"
  | Ev_call_busy string
  | Ev_call_invite string CallType string "string option"
  | Ev_call_participants string "string list"
  | Ev_webrtc_end string
  | Ev_call_endAll string

text \<open>
  The four ways the source addresses an emission: \<^verbatim>\<open>io.emit\<close>, \<^verbatim>\<open>io.to(r).emit\<close>,
  \<^verbatim>\<open>socket.broadcast.emit\<close> and \<^verbatim>\<open>socket.to(r).emit\<close>.
\<close>

datatype target =
    ToAll
  | ToRoom string
  | BroadcastFrom string
  | RoomExcept string string

text \<open>
  Everything a handler does besides updating the server's state: emissions, Redis set
  commands, the database insert of a chat message, and the error log of a failed insert.
  No handler of the source schedules a timer.
\<close>

datatype effect =
    Emit target event
  | Redis_sadd string string
  | Redis_srem string string
  | Message_create stored_message
  | Console_error string

text \<open>
  The state: the sockets connected to the namespace and the rooms of the Socket.IO
  adapter (room name to member ids, in joining order), the module's maps
  \<open>users\<close>, \<open>userRooms\<close>, \<open>inMemMessages\<close>, \<open>onlineUserIds\<close>, the two fields
  \<open>__activeCalls\<close> and \<open>__callLogs\<close> kept on the \<open>io\<close> object, and whether a Redis client
  was configured.  The rate limiter's map is touched by \<open>rateLimit\<close> only and is
  passed to it directly.
\<close>

record server =
  sockets :: "string list"
  rooms :: "string \<Rightarrow> string list"
  users :: "(string \<times> user) list"
  userRooms :: "(string \<times> string option) list"
  inMemMessages :: "stored_message list"
  onlineUserIds :: "string list"
  activeCalls :: "(string \<times> CallState) list"
  callLogs :: "CallLog list"
  redis :: bool

definition server0 :: "bool \<Rightarrow> server" where
  "server0 r = \<lparr>sockets = [], rooms = (\<lambda>_. []), users = [], userRooms = [],
     inMemMessages = [], onlineUserIds = [], activeCalls = [], callLogs = [], redis = r\<rparr>"

text \<open>The sockets an emission reaches, in a given state.\<close>

fun recipients :: "server \<Rightarrow> target \<Rightarrow> string list" where
  "recipients s ToAll = sockets s"
| "recipients s (ToRoom r) = rooms s r"
| "recipients s (BroadcastFrom sid) = removeAll sid (sockets s)"
| "recipients s (RoomExcept sid r) = removeAll sid (rooms s r)"

text \<open>\<^verbatim>\<open>socket.join(room)\<close> and \<^verbatim>\<open>socket.leave(room)\<close> on the in-memory adapter.\<close>

definition socket_join :: "string \<Rightarrow> string \<Rightarrow> server \<Rightarrow> server" where
  "socket_join sid r s = s\<lparr>rooms := (rooms s)(r := set_add sid (rooms s r))\<rparr>"

definition socket_leave :: "string \<Rightarrow> string \<Rightarrow> server \<Rightarrow> server" where
  "socket_leave sid r s = s\<lparr>rooms := (rooms s)(r := set_delete sid (rooms s r))\<rparr>"

text \<open>
  A new connection: Socket.IO registers the socket and puts it into the room named by its
  own id (so that \<^verbatim>\<open>io.to(id)\<close> reaches it).  The connection callback itself creates the
  two call fields when they are absent and registers the handlers below.
\<close>

definition on_connection :: "string \<Rightarrow> server \<Rightarrow> server \<times> effect list" where
  "on_connection sid s = (socket_join sid sid (s\<lparr>sockets := set_add sid (sockets s)\<rparr>), [])"

text \<open>\<^verbatim>\<open>users.get(socket.id)?.name\<close>\<close>

definition user_name :: "server \<Rightarrow> string \<Rightarrow> string option" where
  "user_name s sid = map_option name (map_of (users s) sid)"

text \<open>\<^verbatim>\<open>userRooms.get(socket.id) || null\<close>\<close>

definition prev_room :: "server \<Rightarrow> string \<Rightarrow> string option" where
  "prev_room s sid =
     (case map_of (userRooms s) sid of
        Some (Some r) \<Rightarrow> if r \<noteq> [] then Some r else None
      | _ \<Rightarrow> None)"

text \<open>
  \<^verbatim>\<open>Array.from(io.sockets.adapter.rooms.get(room) || []).map((id) => users.get(id)).filter(Boolean)\<close>
\<close>

definition usersInRoom :: "server \<Rightarrow> string \<Rightarrow> user list" where
  "usersInRoom s r = List.map_filter (map_of (users s)) (rooms s r)"

section \<open>Registration and rooms\<close>

text \<open>
  The payload of \<open>join\<close> is a string (the name) or an object with optional \<open>name\<close> and
  \<open>userId\<close>; a \<open>userId\<close> that is not a string counts as absent.
\<close>

datatype join_payload = Join_name string | Join_object "string option" "string option"

fun join_name :: "join_payload \<Rightarrow> string" where
  "join_name (Join_name n) = n"
| "join_name (Join_object n u) = (if truthy n then the n else ''Anonymous'')"

fun join_userId :: "join_payload \<Rightarrow> string option" where
  "join_userId (Join_name n) = None"
| "join_userId (Join_object n u) = u"

definition on_join :: "string \<Rightarrow> join_payload \<Rightarrow> server \<Rightarrow> server \<times> effect list" where
  "on_join sid payload s =
     (let n = join_name payload; u = join_userId payload;
          us = AList.update sid \<lparr>id' = sid, name = n, userId = u\<rparr> (users s)
      in (s\<lparr>users := us,
            userRooms := AList.update sid None (userRooms s),
            onlineUserIds := (if truthy u then set_add (the u) (onlineUserIds s) else onlineUserIds s)\<rparr>,
          [Emit (BroadcastFrom sid) (Ev_user_join sid n), Emit ToAll (Ev_users (map snd us))]
          @ (if redis s
             then Redis_sadd ''presence:global'' sid
                  # (if truthy u then [Redis_sadd ''presence:users'' (the u)] else [])
             else [])))"

definition on_joinRoom :: "string \<Rightarrow> string option \<Rightarrow> server \<Rightarrow> server \<times> effect list" where
  "on_joinRoom sid rm s =
     (let s1 = (case prev_room s sid of Some prev \<Rightarrow> socket_leave sid prev s | None \<Rightarrow> s)
      in if truthy rm
         then (let r = the rm;
                   s2 = (socket_join sid r s1)\<lparr>userRooms := AList.update sid (Some r) (userRooms s1)\<rparr>
               in (s2,
                   [Emit (ToRoom r) (Ev_room_join sid (user_name s2 sid) r),
                    Emit (ToRoom r) (Ev_usersInRoom (usersInRoom s2 r))]
                   @ (if redis s then [Redis_sadd (''presence:'' @ r) sid] else [])))
         else (s1\<lparr>userRooms := AList.update sid None (userRooms s1)\<rparr>, []))"

definition on_leaveRoom :: "string \<Rightarrow> server \<Rightarrow> server \<times> effect list" where
  "on_leaveRoom sid s =
     (case prev_room s sid of
        None \<Rightarrow> (s, [])
      | Some prev \<Rightarrow>
          (let s1 = (socket_leave sid prev s)\<lparr>userRooms := AList.update sid None (userRooms s)\<rparr>
           in (s1,
               [Emit (ToRoom prev) (Ev_room_leave sid (user_name s1 sid) prev),
                Emit (ToRoom prev) (Ev_usersInRoom (usersInRoom s1 prev))]
               @ (if redis s then [Redis_srem (''presence:'' @ prev) sid] else []))))"

section \<open>Chat messages\<close>

text \<open>
  The \<open>message\<close> event carries \<^verbatim>\<open>{ text: string; room?: string | null }\<close>.  What the
  persistence attempt meets is an input of the handler: MongoDB not connected (the message
  goes to \<open>inMemMessages\<close>, capped to the last 500), \<open>Message.create\<close> resolving, or
  the attempt throwing (caught and logged).  The payload and the target are computed
  before the attempt and the emission comes after it.
\<close>

record message_in =
  in_text :: string
  in_room :: "string option"

datatype store = Not_connected | Create_resolves | Create_throws

definition cap500 :: "'a list \<Rightarrow> 'a list" where
  "cap500 xs = (if length xs > 500 then drop (length xs - 500) xs else xs)"

definition message_room :: "server \<Rightarrow> string \<Rightarrow> message_in \<Rightarrow> string option" where
  "message_room s sid msg =
     (case in_room msg of
        Some r \<Rightarrow> Some r
      | None \<Rightarrow> (case map_of (userRooms s) sid of Some (Some r) \<Rightarrow> Some r | _ \<Rightarrow> None))"

definition message_payload :: "server \<Rightarrow> string \<Rightarrow> int \<Rightarrow> message_in \<Rightarrow> message_payload" where
  "message_payload s sid now msg =
     \<lparr>msg_id = sid,
      msg_name = (case map_of (users s) sid of Some u \<Rightarrow> name u | None \<Rightarrow> ''Anonymous''),
      msg_text = in_text msg, msg_ts = now, msg_room = message_room s sid msg\<rparr>"

definition to_store :: "message_payload \<Rightarrow> stored_message" where
  "to_store p = \<lparr>st_name = msg_name p, st_text = msg_text p, st_ts = msg_ts p, st_room = msg_room p\<rparr>"

definition message_target :: "string option \<Rightarrow> target" where
  "message_target rm = (if truthy rm then ToRoom (the rm) else ToAll)"

definition on_message :: "string \<Rightarrow> int \<Rightarrow> message_in \<Rightarrow> store \<Rightarrow> server \<Rightarrow> server \<times> effect list" where
  "on_message sid now msg db s =
     (let payload = message_payload s sid now msg;
          deliver = Emit (message_target (msg_room payload)) (Ev_message payload)
      in case db of
           Not_connected \<Rightarrow>
             (s\<lparr>inMemMessages := cap500 (inMemMessages s @ [to_store payload])\<rparr>, [deliver])
         | Create_resolves \<Rightarrow> (s, [Message_create (to_store payload), deliver])
         | Create_throws \<Rightarrow> (s, [Console_error ''Failed to save message'', deliver]))"

section \<open>Disconnect\<close>

text \<open>
  Socket.IO takes a closing socket out of every room and out of the namespace before it
  runs the \<open>disconnect\<close> listeners.  The handler then drops the user, announces it, and
  clears the presence sets; it reads \<open>userRooms\<close> but does not change it, and it does
  not look at the call fields.
\<close>

definition socket_close :: "string \<Rightarrow> server \<Rightarrow> server" where
  "socket_close sid s =
     s\<lparr>sockets := set_delete sid (sockets s), rooms := (\<lambda>r. set_delete sid (rooms s r))\<rparr>"

definition on_disconnect :: "string \<Rightarrow> server \<Rightarrow> server \<times> effect list" where
  "on_disconnect sid s =
     (let s0 = socket_close sid s;
          usr = map_of (users s0) sid;
          us = AList.delete sid (users s0);
          uid = (case usr of Some u \<Rightarrow> userId u | None \<Rightarrow> None);
          rm = (case map_of (userRooms s0) sid of Some r \<Rightarrow> r | None \<Rightarrow> None)
      in (s0\<lparr>users := us,
             onlineUserIds := (if truthy uid then set_delete (the uid) (onlineUserIds s0)
                               else onlineUserIds s0)\<rparr>,
          (case usr of Some u \<Rightarrow> [Emit (BroadcastFrom sid) (Ev_user_leave sid (name u))] | None \<Rightarrow> [])
          @ [Emit ToAll (Ev_users (map snd us))]
          @ (if redis s0
             then [Redis_srem ''presence:global'' sid]
                  @ (if truthy rm then [Redis_srem (''presence:'' @ the rm) sid] else [])
                  @ [Redis_srem ''typing:global'' sid]
                  @ (if truthy rm then [Redis_srem (''typing:'' @ the rm) sid] else [])
                  @ (if truthy uid then [Redis_srem ''presence:users'' (the uid)] else [])
             else [])))"

section \<open>Signaling relays\<close>

text \<open>
  \<^verbatim>\<open>webrtc:offer\<close> carries \<^verbatim>\<open>{ to; sdp; media?; callId? }\<close> and \<^verbatim>\<open>call:busy\<close> carries
  \<^verbatim>\<open>{ to }\<close>.  Both handlers only relay to \<open>to\<close> when it is truthy.
\<close>

record offer =
  offer_to :: "string option"
  offer_sdp :: string
  offer_media :: "CallType option"
  offer_callId :: "string option"

definition on_webrtc_offer :: "string \<Rightarrow> offer \<Rightarrow> server \<Rightarrow> server \<times> effect list" where
  "on_webrtc_offer sid payload s =
     (s, if truthy (offer_to payload)
         then [Emit (ToRoom (the (offer_to payload)))
                 (Ev_webrtc_offer sid (offer_sdp payload) (offer_media payload) (offer_callId payload))]
         else [])"

definition on_call_busy :: "string \<Rightarrow> string option \<Rightarrow> server \<Rightarrow> server \<times> effect list" where
  "on_call_busy sid to s =
     (s, if truthy to then [Emit (ToRoom (the to)) (Ev_call_busy sid)] else [])"

section \<open>Group call orchestration\<close>

text \<open>\<^verbatim>\<open>call:invite\<close> carries \<^verbatim>\<open>{ callId; room; type; to? }\<close>; the handler reads the clock twice.\<close>

record invite =
  inv_callId :: string
  inv_room :: "string option"
  inv_type :: CallType
  inv_to :: "string option"

definition on_call_invite :: "string \<Rightarrow> int \<Rightarrow> int \<Rightarrow> invite \<Rightarrow> server \<Rightarrow> server \<times> effect list" where
  "on_call_invite sid now1 now2 payload s =
     (let c = inv_callId payload;
          s1 = (if \<not> has (activeCalls s) c
                then s\<lparr>activeCalls := AList.update c
                          \<lparr>room = inv_room payload, type' = inv_type payload, participants = [],
                           startedAt = now1, initiator = sid\<rparr> (activeCalls s),
                        callLogs := callLogs s @
                          [\<lparr>callId = c, log_room = inv_room payload, log_type = inv_type payload,
                            log_startedAt = now2, endedAt = None, log_initiator = sid,
                            log_participants = []\<rparr>]\<rparr>
                else s);
          ev = Ev_call_invite c (inv_type payload) sid (user_name s1 sid)
      in (s1,
          if truthy (inv_to payload) then [Emit (RoomExcept sid (the (inv_to payload))) ev]
          else if truthy (inv_room payload) then [Emit (RoomExcept sid (the (inv_room payload))) ev]
          else [Emit (BroadcastFrom sid) ev]))"

text \<open>\<^verbatim>\<open>logs.find((l) => l.callId === callId)\<close> followed by an update of the entry found.\<close>

fun update_first :: "('a \<Rightarrow> bool) \<Rightarrow> ('a \<Rightarrow> 'a) \<Rightarrow> 'a list \<Rightarrow> 'a list" where
  "update_first P f [] = []"
| "update_first P f (x # xs) = (if P x then f x # xs else x # update_first P f xs)"

text \<open>\<^verbatim>\<open>Array.from(new Set(xs))\<close>\<close>

definition from_Set :: "'a list \<Rightarrow> 'a list" where
  "from_Set xs = foldl (\<lambda>acc x. set_add x acc) [] xs"

text \<open>\<^verbatim>\<open>if (log && !log.endedAt) log.endedAt = Date.now()\<close>: zero is falsy like \<open>undefined\<close>.\<close>

definition log_end :: "string \<Rightarrow> int \<Rightarrow> CallLog list \<Rightarrow> CallLog list" where
  "log_end c now logs =
     update_first (\<lambda>l. callId l = c)
       (\<lambda>l. if endedAt l = None \<or> endedAt l = Some 0 then l\<lparr>endedAt := Some now\<rparr> else l) logs"

definition call_target :: "CallState \<Rightarrow> target" where
  "call_target st = (if truthy (room st) then ToRoom (the (room st)) else ToAll)"

definition on_call_join :: "string \<Rightarrow> string \<Rightarrow> server \<Rightarrow> server \<times> effect list" where
  "on_call_join sid c s =
     (case map_of (activeCalls s) c of
        None \<Rightarrow> (s, [])
      | Some st \<Rightarrow>
          (let ps = set_add sid (participants st)
           in (s\<lparr>activeCalls := AList.update c (st\<lparr>participants := ps\<rparr>) (activeCalls s),
                 callLogs := update_first (\<lambda>l. callId l = c)
                     (\<lambda>l. l\<lparr>log_participants := set_add sid (from_Set (log_participants l))\<rparr>)
                     (callLogs s)\<rparr>,
               [Emit (call_target st) (Ev_call_participants c ps)])))"

definition on_call_leave :: "string \<Rightarrow> int \<Rightarrow> string \<Rightarrow> server \<Rightarrow> server \<times> effect list" where
  "on_call_leave sid now c s =
     (case map_of (activeCalls s) c of
        None \<Rightarrow> (s, [])
      | Some st \<Rightarrow>
          (let ps = set_delete sid (participants st)
           in (if ps = []
               then s\<lparr>activeCalls := AList.delete c (activeCalls s),
                      callLogs := log_end c now (callLogs s)\<rparr>
               else s\<lparr>activeCalls := AList.update c (st\<lparr>participants := ps\<rparr>) (activeCalls s)\<rparr>,
               [Emit (call_target st) (Ev_call_participants c ps)])))"

definition on_call_endAll :: "string \<Rightarrow> int \<Rightarrow> string \<Rightarrow> server \<Rightarrow> server \<times> effect list" where
  "on_call_endAll sid now c s =
     (case map_of (activeCalls s) c of
        None \<Rightarrow> (s, [])
      | Some st \<Rightarrow>
          (s\<lparr>activeCalls := AList.delete c (activeCalls s),
             callLogs := log_end c now (callLogs s)\<rparr>,
           map (\<lambda>pid. Emit (ToRoom pid) (Ev_webrtc_end sid)) (participants st)
           @ [Emit (call_target st) (Ev_call_endAll c)]))"

section \<open>The server as a transition system\<close>

text \<open>
  One client event: the socket it comes from, the clock reading its handler sees, and
  the event with its payload.
\<close>

datatype client_event =
    On_connection
  | On_join join_payload
  | On_joinRoom "string option"
  | On_leaveRoom
  | On_message message_in store
  | On_disconnect
  | On_webrtc_offer offer
  | On_call_busy "string option"
  | On_call_invite invite int
  | On_call_join string
  | On_call_leave string
  | On_call_endAll string

fun step :: "server \<Rightarrow> string \<times> int \<times> client_event \<Rightarrow> server \<times> effect list" where
  "step s (sid, now, On_connection) = on_connection sid s"
| "step s (sid, now, On_join payload) = on_join sid payload s"
| "step s (sid, now, On_joinRoom rm) = on_joinRoom sid rm s"
| "step s (sid, now, On_leaveRoom) = on_leaveRoom sid s"
| "step s (sid, now, On_message msg db) = on_message sid now msg db s"
| "step s (sid, now, On_disconnect) = on_disconnect sid s"
| "step s (sid, now, On_webrtc_offer payload) = on_webrtc_offer sid payload s"
| "step s (sid, now, On_call_busy to) = on_call_busy sid to s"
| "step s (sid, now, On_call_invite payload now2) = on_call_invite sid now now2 payload s"
| "step s (sid, now, On_call_join c) = on_call_join sid c s"
| "step s (sid, now, On_call_leave c) = on_call_leave sid now c s"
| "step s (sid, now, On_call_endAll c) = on_call_endAll sid now c s"

fun run :: "server \<Rightarrow> (string \<times> int \<times> client_event) list \<Rightarrow> server" where
  "run s [] = s"
| "run s (e # es) = run (fst (step s e)) es"

section \<open>HTTP: bearer tokens and the call log endpoint\<close>

text \<open>
  \<open>verifyJwt\<close> splits the header at spaces, wants the scheme \<open>bearer\<close> in any letter
  case and a non-empty token, and asks the auth service; whatever the service answers to a
  token is an input.  \<open>requireAuth()\<close> answers 401 when that yields no claims.
\<close>

record JwtClaims =
  sub :: string
  exp :: int

datatype verify_reply = Reply_claims JwtClaims | Reply_not_ok | Fetch_throws

record request =
  authorization :: "string option"

datatype body = Body_error string | Body_logs "CallLog list"

datatype response = Response nat body

fun split_space :: "string \<Rightarrow> string list" where
  "split_space [] = [[]]"
| "split_space (c # cs) =
     (if c = CHR '' '' then [] # split_space cs
      else (case split_space cs of w # ws \<Rightarrow> (c # w) # ws | [] \<Rightarrow> [[c]]))"

definition toLowerCase :: "string \<Rightarrow> string" where
  "toLowerCase cs =
     map (\<lambda>c. case map_of (zip ''ABCDEFGHIJKLMNOPQRSTUVWXYZ'' ''abcdefghijklmnopqrstuvwxyz'') c of
                 Some l \<Rightarrow> l | None \<Rightarrow> c) cs"

definition verifyJwt :: "(string \<Rightarrow> verify_reply) \<Rightarrow> string option \<Rightarrow> JwtClaims option" where
  "verifyJwt auth bearer =
     (if \<not> truthy bearer then None
      else (let parts = split_space (the bearer);
                scheme = (case parts of x # _ \<Rightarrow> x | [] \<Rightarrow> []);
                token = (case parts of _ # t # _ \<Rightarrow> Some t | _ \<Rightarrow> None)
            in if toLowerCase scheme \<noteq> ''bearer'' \<or> \<not> truthy token then None
               else (case auth (the token) of Reply_claims c \<Rightarrow> Some c | _ \<Rightarrow> None)))"

definition requireAuth :: "(string \<Rightarrow> verify_reply) \<Rightarrow> request \<Rightarrow> response + JwtClaims" where
  "requireAuth auth req =
     (case verifyJwt auth (authorization req) of
        None \<Rightarrow> Inl (Response 401 (Body_error ''unauthorized''))
      | Some claims \<Rightarrow> Inr claims)"

text \<open>
  \<^verbatim>\<open>app.get('/calls', (req, res) => { ...; res.json({ logs }) })\<close>: the route is registered
  with its handler alone, so the handler runs on every request.  Before the first
  connection the field is absent and the handler answers with the empty list, which is
  the value of \<open>callLogs\<close> in the initial state.
\<close>

definition GET_calls :: "request \<Rightarrow> server \<Rightarrow> response" where
  "GET_calls req s = Response 200 (Body_logs (callLogs s))"

text \<open>The emissions among the effects of a handler, in order.\<close>

definition emissions :: "effect list \<Rightarrow> (target \<times> event) list" where
  "emissions effs = concat (map (\<lambda>e. case e of Emit t ev \<Rightarrow> [(t, ev)] | _ \<Rightarrow> []) effs)"

text \<open>The events that take a session out of the active set: \<open>call:leave\<close> and \<open>call:endAll\<close> naming it.\<close>

fun ends_call :: "string \<Rightarrow> client_event \<Rightarrow> bool" where
  "ends_call c (On_call_leave c') = (c' = c)"
| "ends_call c (On_call_endAll c') = (c' = c)"
| "ends_call c _ = False"

text \<open>The end times of the log entries of a call id, in log order.\<close>

definition end_times :: "string \<Rightarrow> server \<Rightarrow> int option list" where
  "end_times c s = map endedAt (filter (\<lambda>l. callId l = c) (callLogs s))"

text \<open>The call ids a client event records in the log: an invite whose call id is not active.\<close>

fun recorded :: "server \<Rightarrow> client_event \<Rightarrow> string list" where
  "recorded s (On_call_invite payload now2) =
     (if has (activeCalls s) (inv_callId payload) then [] else [inv_callId payload])"
| "recorded s _ = []"

fun recorded_run :: "server \<Rightarrow> (string \<times> int \<times> client_event) list \<Rightarrow> string list" where
  "recorded_run s [] = []"
| "recorded_run s (e # es) = recorded s (snd (snd e)) @ recorded_run (fst (step s e)) es"

text \<open>A run of invites by one socket, each with a call id of its own: \<open>c\<close>, \<open>cc\<close>, \<open>ccc\<close>, ...\<close>

definition nth_callId :: "nat \<Rightarrow> string" where
  "nth_callId k = replicate (Suc k) CHR ''c''"

definition invites :: "nat \<Rightarrow> (string \<times> int \<times> client_event) list" where
  "invites n =
     map (\<lambda>k. (''A'', int k,
               On_call_invite \<lparr>inv_callId = nth_callId k, inv_room = None, inv_type = audio,
                               inv_to = None\<rparr> (int k)))
       [0..<n]"

text \<open>Room membership as the adapter has it, the room of the socket's own id apart.\<close>

definition is_in_room :: "server \<Rightarrow> string \<Rightarrow> string \<Rightarrow> bool" where
  "is_in_room s sid r = (sid \<in> set (rooms s r) \<and> r \<noteq> sid)"

text \<open>
  The invariant of the room tracker: whatever room the adapter has a socket in (its own
  apart) is the room that \<open>userRooms\<close> records for it.
\<close>

definition tracked :: "server \<Rightarrow> bool" where
  "tracked s = (\<forall>sid r. is_in_room s sid r \<longrightarrow> prev_room s sid = Some r)"

text \<open>
  Traces in which a socket registers (\<open>join\<close>) only while \<open>userRooms\<close> records no room
  for it, as when registration comes right after the connection.
\<close>

fun registers_outside_room :: "server \<Rightarrow> string \<times> int \<times> client_event \<Rightarrow> bool" where
  "registers_outside_room s (sid, now, On_join payload) = (prev_room s sid = None)"
| "registers_outside_room s _ = True"

fun registered_first :: "server \<Rightarrow> (string \<times> int \<times> client_event) list \<Rightarrow> bool" where
  "registered_first s [] = True"
| "registered_first s (e # es) =
     (registers_outside_room s e \<and> registered_first (fst (step s e)) es)"

section \<open>Properties of the rate limiter\<close>

lemma map_upt_Suc_shift: "map f [0..<Suc n] = f 0 # map (\<lambda>i. f (Suc i)) [0..<n]"
  by (simp only: map_upt_Suc)

lemma rate_calls_Cons:
  "rate_calls limit w ((key, now) # calls) rm =
     (fst (rateLimit key limit w now rm) # fst (rate_calls limit w calls (snd (rateLimit key limit w now rm))),
      snd (rate_calls limit w calls (snd (rateLimit key limit w now rm))))"
  by (simp add: case_prod_beta)

lemma rateLimit_other_key:
  "k \<noteq> key \<Longrightarrow> map_of (snd (rateLimit k limit w now rm)) key = map_of rm key"
  by (simp add: rateLimit_def update_conv' split: option.splits)

lemma answers_for_Cons:
  "answers_for key (c # calls) (r # rs) =
     (if fst c = key then r # answers_for key calls rs else answers_for key calls rs)"
  by (simp add: answers_for_def)

lemma calls_of_Cons:
  "calls_of key (c # calls) = (if fst c = key then c # calls_of key calls else calls_of key calls)"
  by (simp add: calls_of_def)

lemma rate_calls_in_window:
  "map_of rm key = Some \<lparr>count = c, ts = t0\<rparr> \<Longrightarrow> 1 \<le> c \<Longrightarrow>
   \<forall>call\<in>set calls. fst call = key \<longrightarrow> snd call - t0 \<le> w \<Longrightarrow>
   answers_for key calls (fst (rate_calls limit w calls rm)) =
     map (\<lambda>i. c + int i < limit) [0..<length (calls_of key calls)] \<and>
   (\<exists>c'. map_of (snd (rate_calls limit w calls rm)) key = Some \<lparr>count = c', ts = t0\<rparr>)"
proof (induction calls arbitrary: rm c)
  case Nil
  then show ?case by (simp add: answers_for_def calls_of_def)
next
  case (Cons call calls)
  obtain k t where call: "call = (k, t)" by (cases call)
  show ?case
  proof (cases "k = key")
    case other: False
    have m: "map_of (snd (rateLimit k limit w t rm)) key = Some \<lparr>count = c, ts = t0\<rparr>"
      using other Cons.prems(1) by (simp add: rateLimit_other_key)
    have ih: "answers_for key calls (fst (rate_calls limit w calls (snd (rateLimit k limit w t rm)))) =
        map (\<lambda>i. c + int i < limit) [0..<length (calls_of key calls)] \<and>
      (\<exists>c'. map_of (snd (rate_calls limit w calls (snd (rateLimit k limit w t rm)))) key
          = Some \<lparr>count = c', ts = t0\<rparr>)"
      using Cons.IH [OF m] Cons.prems by simp
    show ?thesis using ih other
      by (simp add: call rate_calls_Cons answers_for_Cons calls_of_Cons del: rate_calls.simps)
  next
    case same: True
    have tw: "t - t0 \<le> w" using Cons.prems(3) same by (simp add: call)
    show ?thesis
    proof (cases "limit \<le> c")
      case True
      then have step: "rateLimit key limit w t rm = (False, rm)"
        using Cons.prems tw by (simp add: rateLimit_def)
      have ih: "answers_for key calls (fst (rate_calls limit w calls rm)) =
          map (\<lambda>i. c + int i < limit) [0..<length (calls_of key calls)] \<and>
        (\<exists>c'. map_of (snd (rate_calls limit w calls rm)) key = Some \<lparr>count = c', ts = t0\<rparr>)"
        using Cons.IH [of rm c] Cons.prems by simp
      show ?thesis using step ih True same
        by (simp add: call rate_calls_Cons answers_for_Cons calls_of_Cons map_upt_Suc_shift
            del: rate_calls.simps upt_Suc)
    next
      case False
      let ?rm' = "AList.update key \<lparr>count = c + 1, ts = t0\<rparr> rm"
      have step: "rateLimit key limit w t rm = (True, ?rm')"
        using Cons.prems False tw by (simp add: rateLimit_def)
      have m: "map_of ?rm' key = Some \<lparr>count = c + 1, ts = t0\<rparr>"
        by (simp add: update_conv')
      have ih: "answers_for key calls (fst (rate_calls limit w calls ?rm')) =
          map (\<lambda>i. (c + 1) + int i < limit) [0..<length (calls_of key calls)] \<and>
        (\<exists>c'. map_of (snd (rate_calls limit w calls ?rm')) key = Some \<lparr>count = c', ts = t0\<rparr>)"
        using Cons.IH [OF m] Cons.prems by simp
      show ?thesis using step ih False same
        by (simp add: call rate_calls_Cons answers_for_Cons calls_of_Cons map_upt_Suc_shift add.assoc
            del: rate_calls.simps upt_Suc)
    qed
  qed
qed

lemma rateLimit_opens_window:
  "window_expired rm key w now \<Longrightarrow>
   rateLimit key limit w now rm = (True, AList.update key \<lparr>count = 1, ts = now\<rparr> rm)"
  by (cases "map_of rm key") (simp_all add: window_expired_def rateLimit_def)

text \<open>
  Claim C6, as amended.  A call that finds no entry for its key, or an expired one, opens a
  window at its clock reading \<open>t0\<close>.  Among the calls for that key whose clock reading is
  at most \<open>windowMs\<close> after \<open>t0\<close>, in whatever way they are interleaved with calls
  for other keys, exactly the first \<open>max 1 limit\<close> are answered true (the opening call
  is always answered true) and the later ones false; and a call for the key more than
  \<open>windowMs\<close> after \<open>t0\<close> is answered true and opens a new window at its own
  clock reading with count 1.
\<close>

theorem rateLimit_fixed_window:
  assumes "window_expired rateMap key windowMs t0"
    and "\<forall>call\<in>set calls. fst call = key \<longrightarrow> snd call - t0 \<le> windowMs"
  shows "answers_for key ((key, t0) # calls) (fst (rate_calls limit windowMs ((key, t0) # calls) rateMap))
           = first_limit_true (max 1 limit) (length (calls_of key ((key, t0) # calls)))
       \<and> (\<forall>now. windowMs < now - t0 \<longrightarrow>
            fst (rateLimit key limit windowMs now
                   (snd (rate_calls limit windowMs ((key, t0) # calls) rateMap))) \<and>
            map_of (snd (rateLimit key limit windowMs now
                   (snd (rate_calls limit windowMs ((key, t0) # calls) rateMap)))) key
              = Some \<lparr>count = 1, ts = now\<rparr>)"
proof -
  let ?rm1 = "AList.update key \<lparr>count = 1, ts = t0\<rparr> rateMap"
  let ?fin = "snd (rate_calls limit windowMs calls ?rm1)"
  have first: "rateLimit key limit windowMs t0 rateMap = (True, ?rm1)"
    using assms(1) by (rule rateLimit_opens_window)
  have m: "map_of ?rm1 key = Some \<lparr>count = 1, ts = t0\<rparr>"
    by (simp add: update_conv')
  from rate_calls_in_window [OF m _ assms(2), of limit]
  have rest: "answers_for key calls (fst (rate_calls limit windowMs calls ?rm1)) =
      map (\<lambda>i. 1 + int i < limit) [0..<length (calls_of key calls)]"
    and fin: "\<exists>c'. map_of ?fin key = Some \<lparr>count = c', ts = t0\<rparr>"
    by simp_all
  have a: "answers_for key ((key, t0) # calls) (fst (rate_calls limit windowMs ((key, t0) # calls) rateMap))
           = first_limit_true (max 1 limit) (length (calls_of key ((key, t0) # calls)))"
    using first rest
    by (auto simp add: rate_calls_Cons answers_for_Cons calls_of_Cons first_limit_true_def map_upt_Suc_shift
        simp del: rate_calls.simps upt_Suc)
  have b: "fst (rateLimit key limit windowMs now ?fin) \<and>
      map_of (snd (rateLimit key limit windowMs now ?fin)) key = Some \<lparr>count = 1, ts = now\<rparr>"
    if "windowMs < now - t0" for now
  proof -
    from fin obtain c' where "map_of ?fin key = Some \<lparr>count = c', ts = t0\<rparr>" ..
    with that show ?thesis by (simp add: rateLimit_def update_conv')
  qed
  show ?thesis using a b first by (simp add: rate_calls_Cons del: rate_calls.simps)
qed

theorem rateLimit_fixed_window_witness:
  "window_expired [] ''get:u1'' 60000 1000 \<and>
   (1500::int) - 1000 \<le> 60000 \<and> (61000::int) - 1000 \<le> 60000 \<and>
   fst (rate_calls 2 60000
     [(''get:u1'', 1000), (''get:u1'', 1500::int), (''post:u1'', 99000), (''get:u1'', 61000)] [])
     = [True, True, True, False] \<and>
   fst (rateLimit ''get:u1'' 2 60000 61001 (snd (rate_calls 2 60000
     [(''get:u1'', 1000), (''get:u1'', 1500::int), (''post:u1'', 99000), (''get:u1'', 61000)] [])))"
  using rateLimit_fixed_window [of "[]" "''get:u1''" 60000 1000
      "[(''get:u1'', 1500::int), (''post:u1'', 99000), (''get:u1'', 61000)]" 2]
  by (simp add: window_expired_def rateLimit_def)

text \<open>
  Claim C6 as stated fails for a limit of zero: the call that opens a window is answered
  true before the limit is looked at, where "exactly the first \<open>limit\<close> calls" would
  answer it false.
\<close>

theorem rateLimit_zero_limit_counterexample:
  "answers_for ''get:u1'' [(''get:u1'', 1000)] (fst (rate_calls 0 60000 [(''get:u1'', 1000)] []))
     \<noteq> first_limit_true 0 (length (calls_of ''get:u1'' [(''get:u1'', 1000)]))"
  by (simp add: rateLimit_def answers_for_def calls_of_def first_limit_true_def)

section \<open>Evaluation and emissions\<close>

lemmas handler_defs = on_connection_def on_join_def on_joinRoom_def on_leaveRoom_def on_message_def
  on_disconnect_def on_webrtc_offer_def on_call_busy_def on_call_invite_def on_call_join_def
  on_call_leave_def on_call_endAll_def

lemmas conc_defs = handler_defs server0_def socket_join_def socket_leave_def socket_close_def
  set_add_def set_delete_def has_def user_name_def prev_room_def usersInRoom_def call_target_def
  message_target_def message_payload_def message_room_def to_store_def cap500_def log_end_def
  from_Set_def emissions_def List.map_filter_def Let_def

lemma emissions_simps:
  "emissions [] = []"
  "emissions (Emit t ev # effs) = (t, ev) # emissions effs"
  "emissions (Redis_sadd k v # effs) = emissions effs"
  "emissions (Redis_srem k v # effs) = emissions effs"
  "emissions (Message_create m # effs) = emissions effs"
  "emissions (Console_error x # effs) = emissions effs"
  "emissions (xs @ ys) = emissions xs @ emissions ys"
  by (simp_all add: emissions_def)

lemma emissions_map_Emit: "emissions (map (\<lambda>x. Emit (f x) (g x)) xs) = map (\<lambda>x. (f x, g x)) xs"
  by (induction xs) (simp_all add: emissions_simps)

section \<open>Invites for a call id that is already active\<close>

text \<open>
  Claim C9.  When \<open>call:invite\<close> carries a call id that is in the active set, the whole
  server state is left as it was, so the session (initiator, start time, type, room,
  participants) and the call log are unchanged, and the handler's only effect is one
  emission of the invite.
\<close>

theorem call_invite_existing_unchanged:
  assumes "has (activeCalls s) (inv_callId payload)"
  shows "fst (on_call_invite sid now1 now2 payload s) = s \<and>
         (\<exists>tgt. snd (on_call_invite sid now1 now2 payload s) =
            [Emit tgt (Ev_call_invite (inv_callId payload) (inv_type payload) sid (user_name s sid))])"
  using assms by (simp add: on_call_invite_def Let_def)

theorem call_invite_existing_unchanged_witness:
  "has (activeCalls (run (server0 False)
      [(''A'', 1, On_connection), (''B'', 2, On_connection),
       (''A'', 3, On_call_invite \<lparr>inv_callId = ''c1'', inv_room = Some ''lobby'', inv_type = video, inv_to = None\<rparr> 3),
       (''A'', 4, On_call_join ''c1'')])) ''c1'' \<and>
   fst (on_call_invite ''B'' 5 6 \<lparr>inv_callId = ''c1'', inv_room = None, inv_type = audio, inv_to = Some ''A''\<rparr>
     (run (server0 False)
      [(''A'', 1, On_connection), (''B'', 2, On_connection),
       (''A'', 3, On_call_invite \<lparr>inv_callId = ''c1'', inv_room = Some ''lobby'', inv_type = video, inv_to = None\<rparr> 3),
       (''A'', 4, On_call_join ''c1'')]))
   = run (server0 False)
      [(''A'', 1, On_connection), (''B'', 2, On_connection),
       (''A'', 3, On_call_invite \<lparr>inv_callId = ''c1'', inv_room = Some ''lobby'', inv_type = video, inv_to = None\<rparr> 3),
       (''A'', 4, On_call_join ''c1'')]"
  using call_invite_existing_unchanged [of "run (server0 False)
      [(''A'', 1, On_connection), (''B'', 2, On_connection),
       (''A'', 3, On_call_invite \<lparr>inv_callId = ''c1'', inv_room = Some ''lobby'', inv_type = video, inv_to = None\<rparr> 3),
       (''A'', 4, On_call_join ''c1'')]"
     "\<lparr>inv_callId = ''c1'', inv_room = None, inv_type = audio, inv_to = Some ''A''\<rparr>" "''B''" 5 6]
  by (simp add: conc_defs)

section \<open>Chat messages: delivery\<close>

text \<open>
  Claim C10.  A \<open>message\<close> from a socket that has no entry in \<open>users\<close> (it never sent
  \<open>join\<close>) is delivered all the same: the handler emits exactly one \<open>message\<close>, whose
  payload carries the socket's id, the name \<open>Anonymous\<close>, the text and the clock reading.
\<close>

theorem message_from_unregistered:
  assumes "map_of (users s) sid = None"
  shows "emissions (snd (on_message sid now msg db s)) =
           [(message_target (message_room s sid msg),
             Ev_message \<lparr>msg_id = sid, msg_name = ''Anonymous'', msg_text = in_text msg,
                         msg_ts = now, msg_room = message_room s sid msg\<rparr>)]"
  using assms
  by (cases db) (simp_all add: on_message_def message_payload_def Let_def emissions_simps)

theorem message_from_unregistered_witness:
  "map_of (users (run (server0 False)
      [(''A'', 1, On_connection), (''B'', 2, On_connection), (''B'', 3, On_join (Join_name ''bob''))])) ''A'' = None \<and>
   emissions (snd (on_message ''A'' 4 \<lparr>in_text = ''hi'', in_room = None\<rparr> Create_throws (run (server0 False)
      [(''A'', 1, On_connection), (''B'', 2, On_connection), (''B'', 3, On_join (Join_name ''bob''))])))
     = [(ToAll, Ev_message \<lparr>msg_id = ''A'', msg_name = ''Anonymous'', msg_text = ''hi'', msg_ts = 4, msg_room = None\<rparr>)] \<and>
   recipients (run (server0 False)
      [(''A'', 1, On_connection), (''B'', 2, On_connection), (''B'', 3, On_join (Join_name ''bob''))]) ToAll
     = [''A'', ''B'']"
  using message_from_unregistered [of "run (server0 False)
      [(''A'', 1, On_connection), (''B'', 2, On_connection), (''B'', 3, On_join (Join_name ''bob''))]"
      "''A''" 4 "\<lparr>in_text = ''hi'', in_room = None\<rparr>" Create_throws]
  by (simp add: conc_defs)

lemma on_message_emissions:
  "emissions (snd (on_message sid now msg db s)) =
     [(message_target (message_room s sid msg), Ev_message (message_payload s sid now msg))]"
  by (cases db) (simp_all add: on_message_def message_payload_def Let_def emissions_simps)

lemma on_message_reach:
  "sockets (fst (on_message sid now msg db s)) = sockets s"
  "rooms (fst (on_message sid now msg db s)) = rooms s"
  by (cases db; simp add: on_message_def Let_def)+

text \<open>
  Claim C7, as amended.  Whatever the persistence attempt meets (no database connection,
  an insert that succeeds, an insert that throws), the handler emits one \<open>message\<close> with
  the same payload and nothing else, so nothing about the persistence attempt reaches a
  client.  The message goes to the members of the room it names, when that is a non-empty
  string; when it names no room, to the members of the sender's room as \<open>userRooms\<close>
  records it; and to every connected socket when it names the empty string, or names no
  room while \<open>userRooms\<close> records none for the sender.
\<close>

theorem message_delivered_whatever_store:
  "(\<forall>r. in_room msg = Some r \<and> r \<noteq> [] \<longrightarrow>
      emissions (snd (on_message sid now msg db s)) =
        [(ToRoom r, Ev_message \<lparr>msg_id = sid,
            msg_name = (case map_of (users s) sid of Some u \<Rightarrow> name u | None \<Rightarrow> ''Anonymous''),
            msg_text = in_text msg, msg_ts = now, msg_room = Some r\<rparr>)] \<and>
      recipients (fst (on_message sid now msg db s)) (ToRoom r) = rooms s r) \<and>
   (\<forall>r. in_room msg = None \<and> map_of (userRooms s) sid = Some (Some r) \<and> r \<noteq> [] \<longrightarrow>
      emissions (snd (on_message sid now msg db s)) =
        [(ToRoom r, Ev_message \<lparr>msg_id = sid,
            msg_name = (case map_of (users s) sid of Some u \<Rightarrow> name u | None \<Rightarrow> ''Anonymous''),
            msg_text = in_text msg, msg_ts = now, msg_room = Some r\<rparr>)] \<and>
      recipients (fst (on_message sid now msg db s)) (ToRoom r) = rooms s r) \<and>
   (in_room msg = Some [] \<or>
    (in_room msg = None \<and> map_of (userRooms s) sid = Some (Some [])) \<longrightarrow>
      emissions (snd (on_message sid now msg db s)) =
        [(ToAll, Ev_message \<lparr>msg_id = sid,
            msg_name = (case map_of (users s) sid of Some u \<Rightarrow> name u | None \<Rightarrow> ''Anonymous''),
            msg_text = in_text msg, msg_ts = now, msg_room = Some []\<rparr>)] \<and>
      recipients (fst (on_message sid now msg db s)) ToAll = sockets s) \<and>
   (in_room msg = None \<and>
    (map_of (userRooms s) sid = None \<or> map_of (userRooms s) sid = Some None) \<longrightarrow>
      emissions (snd (on_message sid now msg db s)) =
        [(ToAll, Ev_message \<lparr>msg_id = sid,
            msg_name = (case map_of (users s) sid of Some u \<Rightarrow> name u | None \<Rightarrow> ''Anonymous''),
            msg_text = in_text msg, msg_ts = now, msg_room = None\<rparr>)] \<and>
      recipients (fst (on_message sid now msg db s)) ToAll = sockets s)"
  by (auto simp add: on_message_emissions on_message_reach message_payload_def message_room_def
      message_target_def)

theorem message_delivered_whatever_store_witness:
  "in_room \<lparr>in_text = ''hi'', in_room = None\<rparr> = None \<and>
   map_of (userRooms (run (server0 False)
     [(''A'', 1, On_connection), (''B'', 2, On_connection),
      (''A'', 3, On_join (Join_name ''alice'')), (''A'', 4, On_joinRoom (Some ''r2''))])) ''A''
     = Some (Some ''r2'') \<and>
   ''r2'' \<noteq> [] \<and>
   emissions (snd (on_message ''A'' 5 \<lparr>in_text = ''hi'', in_room = None\<rparr> Not_connected
     (run (server0 False)
     [(''A'', 1, On_connection), (''B'', 2, On_connection),
      (''A'', 3, On_join (Join_name ''alice'')), (''A'', 4, On_joinRoom (Some ''r2''))])))
     = [(ToRoom ''r2'', Ev_message \<lparr>msg_id = ''A'',
          msg_name = (case map_of (users (run (server0 False)
     [(''A'', 1, On_connection), (''B'', 2, On_connection),
      (''A'', 3, On_join (Join_name ''alice'')), (''A'', 4, On_joinRoom (Some ''r2''))])) ''A'' of
              Some u \<Rightarrow> name u | None \<Rightarrow> ''Anonymous''),
          msg_text = in_text \<lparr>in_text = ''hi'', in_room = None\<rparr>, msg_ts = 5, msg_room = Some ''r2''\<rparr>)] \<and>
   map_option name (map_of (users (run (server0 False)
     [(''A'', 1, On_connection), (''B'', 2, On_connection),
      (''A'', 3, On_join (Join_name ''alice'')), (''A'', 4, On_joinRoom (Some ''r2''))])) ''A'')
     = Some ''alice'' \<and>
   rooms (run (server0 False)
     [(''A'', 1, On_connection), (''B'', 2, On_connection),
      (''A'', 3, On_join (Join_name ''alice'')), (''A'', 4, On_joinRoom (Some ''r2''))]) ''r2'' = [''A'']"
proof -
  let ?s = "run (server0 False)
     [(''A'', 1, On_connection), (''B'', 2, On_connection),
      (''A'', 3, On_join (Join_name ''alice'')), (''A'', 4, On_joinRoom (Some ''r2''))]"
  let ?msg = "\<lparr>in_text = ''hi'', in_room = None\<rparr>"
  have h1: "in_room ?msg = None" by simp
  have h2: "map_of (userRooms ?s) ''A'' = Some (Some ''r2'')" by (simp add: conc_defs)
  have h3: "''r2'' \<noteq> []" by simp
  note t = message_delivered_whatever_store [of ?msg "''A''" 5 Not_connected ?s,
      THEN conjunct2, THEN conjunct1, rule_format, of "''r2''"]
  have d: "emissions (snd (on_message ''A'' 5 ?msg Not_connected ?s)) =
        [(ToRoom ''r2'', Ev_message \<lparr>msg_id = ''A'',
            msg_name = (case map_of (users ?s) ''A'' of Some u \<Rightarrow> name u | None \<Rightarrow> ''Anonymous''),
            msg_text = in_text ?msg, msg_ts = 5, msg_room = Some ''r2''\<rparr>)]"
    by (rule t [THEN conjunct1]) (intro conjI h1 h2 h3)
  have n: "map_option name (map_of (users ?s) ''A'') = Some ''alice''" by (simp add: conc_defs)
  have r: "rooms ?s ''r2'' = [''A'']" by (simp add: conc_defs)
  show ?thesis by (intro conjI) (fact h1 h2 h3 d n r)+
qed

text \<open>
  Claim C7 fails where it sends a publish without a room to every connected socket:
  \<open>A\<close> and \<open>B\<close> are in the room \<open>r1\<close>, \<open>C\<close> is connected and in no room.  A message
  of \<open>A\<close> that names no room is emitted to \<open>r1\<close> and reaches \<open>A\<close> and \<open>B\<close> only.
\<close>

theorem message_null_room_counterexample:
  "sockets (run (server0 False)
     [(''A'', 1, On_connection), (''B'', 2, On_connection), (''C'', 3, On_connection),
      (''A'', 4, On_joinRoom (Some ''r1'')), (''B'', 5, On_joinRoom (Some ''r1''))])
     = [''A'', ''B'', ''C''] \<and>
   emissions (snd (on_message ''A'' 6 \<lparr>in_text = ''hi'', in_room = None\<rparr> Create_throws
     (run (server0 False)
     [(''A'', 1, On_connection), (''B'', 2, On_connection), (''C'', 3, On_connection),
      (''A'', 4, On_joinRoom (Some ''r1'')), (''B'', 5, On_joinRoom (Some ''r1''))])))
     = [(ToRoom ''r1'', Ev_message \<lparr>msg_id = ''A'', msg_name = ''Anonymous'', msg_text = ''hi'',
          msg_ts = 6, msg_room = Some ''r1''\<rparr>)] \<and>
   recipients (fst (on_message ''A'' 6 \<lparr>in_text = ''hi'', in_room = None\<rparr> Create_throws
     (run (server0 False)
     [(''A'', 1, On_connection), (''B'', 2, On_connection), (''C'', 3, On_connection),
      (''A'', 4, On_joinRoom (Some ''r1'')), (''B'', 5, On_joinRoom (Some ''r1''))])))
     (ToRoom ''r1'') = [''A'', ''B'']"
  by (simp add: conc_defs)

section \<open>The call log endpoint and bearer tokens\<close>

text \<open>
  Claim C8 fails: a request to \<open>GET /calls\<close> without any \<open>Authorization\<close> header, for
  which \<open>verifyJwt\<close> yields nothing, is answered with status 200 and the call log.
\<close>

theorem GET_calls_unauthenticated_counterexample:
  "verifyJwt (\<lambda>t. Reply_not_ok) (authorization \<lparr>authorization = None\<rparr>) = None \<and>
   GET_calls \<lparr>authorization = None\<rparr> (run (server0 False)
      [(''A'', 1, On_connection),
       (''A'', 2, On_call_invite \<lparr>inv_callId = ''c1'', inv_room = None, inv_type = video, inv_to = None\<rparr> 2)])
   = Response 200 (Body_logs
       [\<lparr>callId = ''c1'', log_room = None, log_type = video, log_startedAt = 2, endedAt = None,
         log_initiator = ''A'', log_participants = []\<rparr>])"
  by (simp add: verifyJwt_def GET_calls_def conc_defs)

text \<open>
  Claim C8, as amended.  Every request to \<open>GET /calls\<close>, with or without a verified
  bearer token, is answered with status 200 and the whole call log; the bearer-token
  guard \<open>requireAuth\<close>, which answers 401 \<open>unauthorized\<close> whenever \<open>verifyJwt\<close> yields
  no claims, is not in front of this route.
\<close>

theorem GET_calls_open_contacts_guarded:
  "GET_calls req s = Response 200 (Body_logs (callLogs s)) \<and>
   (verifyJwt auth (authorization req) = None \<longrightarrow>
      requireAuth auth req = Inl (Response 401 (Body_error ''unauthorized'')))"
  by (simp add: GET_calls_def requireAuth_def)

theorem GET_calls_open_contacts_guarded_witness:
  "verifyJwt (\<lambda>t. Reply_claims \<lparr>sub = ''u1'', exp = 99\<rparr>) (authorization \<lparr>authorization = Some ''Basic abc''\<rparr>) = None \<and>
   requireAuth (\<lambda>t. Reply_claims \<lparr>sub = ''u1'', exp = 99\<rparr>) \<lparr>authorization = Some ''Basic abc''\<rparr>
     = Inl (Response 401 (Body_error ''unauthorized'')) \<and>
   GET_calls \<lparr>authorization = Some ''Basic abc''\<rparr> (server0 False) = Response 200 (Body_logs [])"
  using GET_calls_open_contacts_guarded [of "\<lparr>authorization = Some ''Basic abc''\<rparr>" "server0 False"
      "\<lambda>t. Reply_claims \<lparr>sub = ''u1'', exp = 99\<rparr>"]
  by (simp add: verifyJwt_def toLowerCase_def server0_def)

section \<open>Offers and busy signals\<close>

text \<open>
  Claim C2 fails: \<open>A\<close> and \<open>B\<close> are the participants of the active call \<open>c1\<close>;
  \<open>D\<close> sends \<open>A\<close> an offer for a call \<open>c2\<close>.  The server's only effect is the relay of
  the offer to \<open>A\<close>: no busy signal goes to \<open>D\<close>.
\<close>

theorem offer_to_busy_target_counterexample:
  "participants (the (map_of (activeCalls (run (server0 False)
     [(''A'', 1, On_connection), (''B'', 2, On_connection), (''D'', 3, On_connection),
      (''A'', 4, On_call_invite \<lparr>inv_callId = ''c1'', inv_room = None, inv_type = video, inv_to = Some ''B''\<rparr> 4),
      (''A'', 5, On_call_join ''c1''), (''B'', 6, On_call_join ''c1'')])) ''c1'')) = [''A'', ''B''] \<and>
   snd (on_webrtc_offer ''D''
     \<lparr>offer_to = Some ''A'', offer_sdp = ''v=0'', offer_media = Some video, offer_callId = Some ''c2''\<rparr>
     (run (server0 False)
     [(''A'', 1, On_connection), (''B'', 2, On_connection), (''D'', 3, On_connection),
      (''A'', 4, On_call_invite \<lparr>inv_callId = ''c1'', inv_room = None, inv_type = video, inv_to = Some ''B''\<rparr> 4),
      (''A'', 5, On_call_join ''c1''), (''B'', 6, On_call_join ''c1'')]))
     = [Emit (ToRoom ''A'') (Ev_webrtc_offer ''D'' ''v=0'' (Some video) (Some ''c2''))] \<and>
   recipients (run (server0 False)
     [(''A'', 1, On_connection), (''B'', 2, On_connection), (''D'', 3, On_connection),
      (''A'', 4, On_call_invite \<lparr>inv_callId = ''c1'', inv_room = None, inv_type = video, inv_to = Some ''B''\<rparr> 4),
      (''A'', 5, On_call_join ''c1''), (''B'', 6, On_call_join ''c1'')]) (ToRoom ''A'') = [''A'']"
  by (simp add: conc_defs)

lemma busy_only_relayed:
  assumes "(tgt, Ev_call_busy x) \<in> set (emissions (snd (step s (sid, now, ev))))"
  shows "\<exists>to. ev = On_call_busy (Some to) \<and> tgt = ToRoom to \<and> x = sid"
proof (cases ev)
  case (On_call_busy to)
  with assms show ?thesis
    by (cases to) (auto simp: on_call_busy_def emissions_simps split: if_splits)
next
  case (On_message msg db)
  with assms show ?thesis
    by (cases db) (auto simp: on_message_def Let_def emissions_simps)
qed (use assms in \<open>auto simp: handler_defs Let_def emissions_simps emissions_map_Emit
      split: if_splits option.splits\<close>)

text \<open>
  Claim C2, as amended.  The server relays every offer with a truthy target to that
  target, whatever calls the target is in, and leaves its own state (so every session)
  unchanged; a busy signal is emitted only as the relay of a \<open>call:busy\<close> that a client
  sent, from that client to the target it named.
\<close>

theorem offer_relayed_busy_by_clients:
  "fst (on_webrtc_offer sid payload s) = s \<and>
   emissions (snd (on_webrtc_offer sid payload s)) =
     (if truthy (offer_to payload)
      then [(ToRoom (the (offer_to payload)),
             Ev_webrtc_offer sid (offer_sdp payload) (offer_media payload) (offer_callId payload))]
      else []) \<and>
   (\<forall>tgt x sid' now ev. (tgt, Ev_call_busy x) \<in> set (emissions (snd (step s (sid', now, ev)))) \<longrightarrow>
      (\<exists>to. ev = On_call_busy (Some to) \<and> tgt = ToRoom to \<and> x = sid'))"
  using busy_only_relayed by (simp add: on_webrtc_offer_def emissions_simps)

theorem offer_relayed_busy_by_clients_witness:
  "(ToRoom ''D'', Ev_call_busy ''A'') \<in> set (emissions (snd (step
      (run (server0 False) [(''A'', 1, On_connection), (''D'', 2, On_connection)])
      (''A'', 4, On_call_busy (Some ''D''))))) \<and>
   fst (on_webrtc_offer ''D''
     \<lparr>offer_to = Some ''A'', offer_sdp = ''v=0'', offer_media = Some audio, offer_callId = None\<rparr>
     (run (server0 False) [(''A'', 1, On_connection), (''D'', 2, On_connection)]))
     = run (server0 False) [(''A'', 1, On_connection), (''D'', 2, On_connection)] \<and>
   emissions (snd (on_webrtc_offer ''D''
     \<lparr>offer_to = Some ''A'', offer_sdp = ''v=0'', offer_media = Some audio, offer_callId = None\<rparr>
     (run (server0 False) [(''A'', 1, On_connection), (''D'', 2, On_connection)])))
     = [(ToRoom ''A'', Ev_webrtc_offer ''D'' ''v=0'' (Some audio) None)]"
  using offer_relayed_busy_by_clients [of "''D''"
     "\<lparr>offer_to = Some ''A'', offer_sdp = ''v=0'', offer_media = Some audio, offer_callId = None\<rparr>"
     "run (server0 False) [(''A'', 1, On_connection), (''D'', 2, On_connection)]"]
  by (simp add: conc_defs)

section \<open>The call log\<close>

lemma map_update_first:
  "(\<And>x. g (f x) = g x) \<Longrightarrow> map g (update_first P f xs) = map g xs"
  by (induction xs) simp_all

lemma callId_log_end: "map callId (log_end c now logs) = map callId logs"
  by (simp add: log_end_def map_update_first)

lemma callLogs_socket [simp]:
  "callLogs (socket_join sid r s) = callLogs s"
  "callLogs (socket_leave sid r s) = callLogs s"
  "callLogs (socket_close sid s) = callLogs s"
  by (simp_all add: socket_join_def socket_leave_def socket_close_def)

lemma callLogs_unchanged:
  "callLogs (fst (on_connection sid s)) = callLogs s"
  "callLogs (fst (on_join sid payload s)) = callLogs s"
  "callLogs (fst (on_joinRoom sid rm s)) = callLogs s"
  "callLogs (fst (on_leaveRoom sid s)) = callLogs s"
  "callLogs (fst (on_message sid now msg db s)) = callLogs s"
  "callLogs (fst (on_disconnect sid s)) = callLogs s"
  "callLogs (fst (on_webrtc_offer sid offer s)) = callLogs s"
  "callLogs (fst (on_call_busy sid to s)) = callLogs s"
        apply (simp add: on_connection_def)
       apply (simp add: on_join_def Let_def)
      apply (simp add: on_joinRoom_def Let_def split: option.splits)
     apply (simp add: on_leaveRoom_def Let_def split: option.splits)
    apply (cases db; simp add: on_message_def Let_def)
   apply (simp add: on_disconnect_def Let_def)
  apply (simp add: on_webrtc_offer_def)
  apply (simp add: on_call_busy_def)
  done

lemma callLogs_ids_calls:
  "map callId (callLogs (fst (on_call_invite sid now now2 payload s)))
     = map callId (callLogs s) @ (if has (activeCalls s) (inv_callId payload) then [] else [inv_callId payload])"
  "map callId (callLogs (fst (on_call_join sid c s))) = map callId (callLogs s)"
  "map callId (callLogs (fst (on_call_leave sid now c s))) = map callId (callLogs s)"
  "map callId (callLogs (fst (on_call_endAll sid now c s))) = map callId (callLogs s)"
     apply (simp add: on_call_invite_def Let_def)
    apply (simp add: on_call_join_def Let_def map_update_first split: option.splits)
   apply (simp add: on_call_leave_def Let_def callId_log_end split: option.splits)
  apply (simp add: on_call_endAll_def Let_def callId_log_end split: option.splits)
  done

lemma step_log_ids:
  "map callId (callLogs (fst (step s (sid, now, ev)))) = map callId (callLogs s) @ recorded s ev"
  by (cases ev) (simp_all add: callLogs_unchanged callLogs_ids_calls)

lemma run_log_ids:
  "map callId (callLogs (run s evs)) = map callId (callLogs s) @ recorded_run s evs"
proof (induction evs arbitrary: s)
  case Nil
  then show ?case by simp
next
  case (Cons e evs)
  obtain sid now ev where e: "e = (sid, now, ev)" by (cases e)
  show ?case by (simp add: Cons.IH e step_log_ids)
qed

text \<open>
  Claim C4, as amended.  The call log is an ordered sequence without a capacity: over any
  run of client events, the call ids in the log are those it had before, in place,
  followed by the call ids recorded during the run in recording order (an invite records
  its call id when it is not active); finalizing removes nothing; and \<open>GET /calls\<close>
  returns the whole log.
\<close>

theorem call_log_never_evicts:
  "map callId (callLogs (run s evs)) = map callId (callLogs s) @ recorded_run s evs \<and>
   GET_calls req (run s evs) = Response 200 (Body_logs (callLogs (run s evs)))"
  by (simp add: run_log_ids GET_calls_def)

lemma run_append: "run s (xs @ ys) = run (run s xs) ys"
  by (induction xs arbitrary: s) simp_all

lemma invites_Suc:
  "invites (Suc n) = invites n @ [(''A'', int n,
      On_call_invite \<lparr>inv_callId = nth_callId n, inv_room = None, inv_type = audio, inv_to = None\<rparr> (int n))]"
  by (simp add: invites_def)

lemma nth_callId_fresh: "nth_callId n \<notin> nth_callId ` {0..<n}"
proof
  assume "nth_callId n \<in> nth_callId ` {0..<n}"
  then obtain k where "k < n" and "nth_callId n = nth_callId k" by auto
  then have "length (nth_callId n) = length (nth_callId k)" by simp
  with \<open>k < n\<close> show False by (simp add: nth_callId_def)
qed

lemma on_call_invite_fresh:
  assumes "\<not> has (activeCalls s) (inv_callId payload)"
  shows "map fst (activeCalls (fst (on_call_invite sid now1 now2 payload s)))
           = map fst (activeCalls s) @ [inv_callId payload]"
    and "map callId (callLogs (fst (on_call_invite sid now1 now2 payload s)))
           = map callId (callLogs s) @ [inv_callId payload]"
proof -
  from assms have "inv_callId payload \<notin> set (map fst (activeCalls s))"
    by (simp add: has_def map_of_eq_None_iff)
  with assms show "map fst (activeCalls (fst (on_call_invite sid now1 now2 payload s)))
           = map fst (activeCalls s) @ [inv_callId payload]"
    by (simp add: on_call_invite_def Let_def update_keys)
  from assms show "map callId (callLogs (fst (on_call_invite sid now1 now2 payload s)))
           = map callId (callLogs s) @ [inv_callId payload]"
    by (simp add: on_call_invite_def Let_def)
qed

lemma invites_state:
  "map fst (activeCalls (run (server0 r) (invites n))) = map nth_callId [0..<n] \<and>
   map callId (callLogs (run (server0 r) (invites n))) = map nth_callId [0..<n]"
proof (induction n)
  case 0
  then show ?case by (simp add: invites_def server0_def)
next
  case (Suc n)
  let ?s = "run (server0 r) (invites n)"
  let ?p = "\<lparr>inv_callId = nth_callId n, inv_room = None, inv_type = audio, inv_to = None\<rparr>"
  have "set (map fst (activeCalls ?s)) = nth_callId ` {0..<n}"
    using Suc by simp
  then have fresh: "\<not> has (activeCalls ?s) (inv_callId ?p)"
    using nth_callId_fresh [of n] by (simp add: has_def map_of_eq_None_iff)
  have next_state: "run (server0 r) (invites (Suc n)) = fst (on_call_invite ''A'' (int n) (int n) ?p ?s)"
    by (simp add: invites_Suc run_append)
  show ?case
    unfolding next_state using on_call_invite_fresh [OF fresh, of "''A''" "int n" "int n"] Suc
    by simp
qed

lemma invites_first:
  assumes "0 < n"
  shows "callId (hd (callLogs (run (server0 r) (invites n)))) = nth_callId 0"
proof -
  have m: "map callId (callLogs (run (server0 r) (invites n))) = map nth_callId [0..<n]"
    using invites_state [of r n] by simp
  from assms have ne: "[0..<n] \<noteq> []" by simp
  then have "callLogs (run (server0 r) (invites n)) \<noteq> []" using m by (metis map_is_Nil_conv)
  then have "callId (hd (callLogs (run (server0 r) (invites n))))
      = hd (map callId (callLogs (run (server0 r) (invites n))))"
    by (simp add: hd_map)
  also have "\<dots> = hd (map nth_callId [0..<n])" by (simp only: m)
  also have "\<dots> = nth_callId 0" using ne assms by (simp add: hd_map)
  finally show ?thesis .
qed

lemma invites_length: "length (callLogs (run (server0 r) (invites n))) = n"
proof -
  have "length (map callId (callLogs (run (server0 r) (invites n)))) = length (map nth_callId [0..<n])"
    using invites_state [of r n] by simp
  then show ?thesis by simp
qed

text \<open>
  Claim C4 fails: after 501 invites with call ids of their own the log has 501 entries,
  the entry of the first invite still at its head, and no capacity bounds the length of
  the log over such runs.
\<close>

theorem call_log_unbounded_counterexample:
  "length (callLogs (run (server0 False) (invites 501))) = 501 \<and>
   callId (hd (callLogs (run (server0 False) (invites 501)))) = ''c'' \<and>
   \<not> (\<exists>capacity. \<forall>n. length (callLogs (run (server0 False) (invites n))) \<le> capacity)"
proof -
  have first: "callId (hd (callLogs (run (server0 False) (invites 501)))) = ''c''"
    using invites_first [of 501 False] by (simp add: nth_callId_def)
  have "\<not> (\<forall>n. length (callLogs (run (server0 False) (invites n))) \<le> capacity)" for capacity
  proof
    assume "\<forall>n. length (callLogs (run (server0 False) (invites n))) \<le> capacity"
    then have "length (callLogs (run (server0 False) (invites (Suc capacity)))) \<le> capacity" ..
    then show False by (simp add: invites_length)
  qed
  then show ?thesis using first by (simp add: invites_length)
qed

section \<open>Invites and the ring timeout\<close>

lemma activeCalls_socket [simp]:
  "activeCalls (socket_join sid r s) = activeCalls s"
  "activeCalls (socket_leave sid r s) = activeCalls s"
  "activeCalls (socket_close sid s) = activeCalls s"
  by (simp_all add: socket_join_def socket_leave_def socket_close_def)

lemma activeCalls_unchanged:
  "activeCalls (fst (on_connection sid s)) = activeCalls s"
  "activeCalls (fst (on_join sid payload s)) = activeCalls s"
  "activeCalls (fst (on_joinRoom sid rm s)) = activeCalls s"
  "activeCalls (fst (on_leaveRoom sid s)) = activeCalls s"
  "activeCalls (fst (on_message sid now msg db s)) = activeCalls s"
  "activeCalls (fst (on_disconnect sid s)) = activeCalls s"
  "activeCalls (fst (on_webrtc_offer sid offer s)) = activeCalls s"
  "activeCalls (fst (on_call_busy sid to s)) = activeCalls s"
        apply (simp add: on_connection_def)
       apply (simp add: on_join_def Let_def)
      apply (simp add: on_joinRoom_def Let_def split: option.splits)
     apply (simp add: on_leaveRoom_def Let_def split: option.splits)
    apply (cases db; simp add: on_message_def Let_def)
   apply (simp add: on_disconnect_def Let_def)
  apply (simp add: on_webrtc_offer_def)
  apply (simp add: on_call_busy_def)
  done

lemma end_times_unchanged:
  "end_times c (fst (on_connection sid s)) = end_times c s"
  "end_times c (fst (on_join sid payload s)) = end_times c s"
  "end_times c (fst (on_joinRoom sid rm s)) = end_times c s"
  "end_times c (fst (on_leaveRoom sid s)) = end_times c s"
  "end_times c (fst (on_message sid now msg db s)) = end_times c s"
  "end_times c (fst (on_disconnect sid s)) = end_times c s"
  "end_times c (fst (on_webrtc_offer sid offer s)) = end_times c s"
  "end_times c (fst (on_call_busy sid to s)) = end_times c s"
  by (simp_all only: end_times_def callLogs_unchanged)

lemma filter_update_first_other:
  "(\<And>x. Q x \<Longrightarrow> \<not> P x \<and> \<not> P (f x)) \<Longrightarrow> filter P (update_first Q f xs) = filter P xs"
  by (induction xs) auto

lemma map_filter_update_first:
  "(\<And>x. P (f x) = P x) \<Longrightarrow> (\<And>x. g (f x) = g x) \<Longrightarrow>
   map g (filter P (update_first Q f xs)) = map g (filter P xs)"
  by (induction xs) auto

lemma end_times_log_end_other:
  "c' \<noteq> c \<Longrightarrow> map endedAt (filter (\<lambda>l. callId l = c) (log_end c' now logs))
     = map endedAt (filter (\<lambda>l. callId l = c) logs)"
  unfolding log_end_def by (subst filter_update_first_other) auto

lemma end_times_invite:
  "end_times c (fst (on_call_invite sid now1 now2 payload s)) =
     end_times c s @ (if \<not> has (activeCalls s) (inv_callId payload) \<and> inv_callId payload = c
                      then [None] else [])"
  by (auto simp add: end_times_def on_call_invite_def Let_def)

lemma end_times_join: "end_times c (fst (on_call_join sid c' s)) = end_times c s"
  by (simp add: end_times_def on_call_join_def Let_def map_filter_update_first split: option.splits)

lemma end_times_leave: "c' \<noteq> c \<Longrightarrow> end_times c (fst (on_call_leave sid now c' s)) = end_times c s"
  by (simp add: end_times_def on_call_leave_def Let_def end_times_log_end_other split: option.splits)

lemma end_times_endAll: "c' \<noteq> c \<Longrightarrow> end_times c (fst (on_call_endAll sid now c' s)) = end_times c s"
  by (simp add: end_times_def on_call_endAll_def Let_def end_times_log_end_other split: option.splits)

lemma has_update: "has (AList.update k v m) c \<longleftrightarrow> c = k \<or> has m c"
  by (auto simp: has_def update_conv')

lemma has_delete: "has (AList.delete k m) c \<longleftrightarrow> c \<noteq> k \<and> has m c"
  by (auto simp: has_def delete_conv')

lemma has_invite:
  "has (activeCalls (fst (on_call_invite sid now1 now2 payload s))) c
     \<longleftrightarrow> c = inv_callId payload \<or> has (activeCalls s) c"
  by (auto simp: on_call_invite_def Let_def has_update)

lemma has_Some: "map_of m k = Some v \<Longrightarrow> has m k"
  by (simp add: has_def)

lemma has_join: "has (activeCalls (fst (on_call_join sid c' s))) c = has (activeCalls s) c"
  by (auto simp: on_call_join_def Let_def has_update has_Some split: option.splits)

lemma has_leave: "c' \<noteq> c \<Longrightarrow> has (activeCalls (fst (on_call_leave sid now c' s))) c = has (activeCalls s) c"
  by (auto simp: on_call_leave_def Let_def has_update has_delete split: option.splits)

lemma has_endAll: "c' \<noteq> c \<Longrightarrow> has (activeCalls (fst (on_call_endAll sid now c' s))) c = has (activeCalls s) c"
  by (auto simp: on_call_endAll_def Let_def has_delete split: option.splits)

lemma step_keeps_active:
  assumes "\<not> ends_call c ev" and "has (activeCalls s) c"
  shows "has (activeCalls (fst (step s (sid, now, ev)))) c"
  using assms
  by (cases ev) (simp_all add: activeCalls_unchanged has_invite has_join has_leave has_endAll)

lemma step_keeps_end_times:
  assumes "\<not> ends_call c ev" and "has (activeCalls s) c"
  shows "end_times c (fst (step s (sid, now, ev))) = end_times c s"
  using assms
  by (cases ev)
    (auto simp add: end_times_unchanged end_times_invite end_times_join end_times_leave
      end_times_endAll)

lemma run_keeps_session:
  assumes "\<forall>e\<in>set evs. \<not> ends_call c (snd (snd e))" and "has (activeCalls s) c"
  shows "has (activeCalls (run s evs)) c \<and> end_times c (run s evs) = end_times c s"
  using assms
proof (induction evs arbitrary: s)
  case Nil
  then show ?case by simp
next
  case (Cons e evs)
  obtain sid now ev where e: "e = (sid, now, ev)" by (cases e)
  from Cons.prems have ne: "\<not> ends_call c ev" by (simp add: e)
  have a: "has (activeCalls (fst (step s e))) c"
    unfolding e using ne Cons.prems(2) by (rule step_keeps_active)
  have t: "end_times c (fst (step s e)) = end_times c s"
    unfolding e using ne Cons.prems(2) by (rule step_keeps_end_times)
  from Cons.IH [OF _ a] Cons.prems(1) t show ?case by simp
qed

text \<open>
  Claim C1, as amended.  The server starts no ring timeout.  Processing a direct invite
  (one with a truthy \<open>to\<close>) only relays the invite to the target; the initiator is not
  among the recipients.  Whatever client events follow, at whatever clock readings, as
  long as none of them is a \<open>call:leave\<close> or \<open>call:endAll\<close> for that call id, the
  session stays in the active set and the end times of the call id's log entries stay as
  they were, the entry recorded by the invite with no end time.
\<close>

theorem invite_direct_no_timeout:
  assumes "truthy (inv_to payload)"
    and "\<forall>e\<in>set evs. \<not> ends_call (inv_callId payload) (snd (snd e))"
  shows "snd (on_call_invite sid now1 now2 payload s) =
           [Emit (RoomExcept sid (the (inv_to payload)))
              (Ev_call_invite (inv_callId payload) (inv_type payload) sid (user_name s sid))] \<and>
         sid \<notin> set (recipients (fst (on_call_invite sid now1 now2 payload s))
                       (RoomExcept sid (the (inv_to payload)))) \<and>
         has (activeCalls (run (fst (on_call_invite sid now1 now2 payload s)) evs)) (inv_callId payload) \<and>
         end_times (inv_callId payload) (run (fst (on_call_invite sid now1 now2 payload s)) evs) =
           end_times (inv_callId payload) s @
             (if has (activeCalls s) (inv_callId payload) then [] else [None])"
proof -
  let ?s1 = "fst (on_call_invite sid now1 now2 payload s)"
  let ?c = "inv_callId payload"
  have eff: "snd (on_call_invite sid now1 now2 payload s) =
           [Emit (RoomExcept sid (the (inv_to payload)))
              (Ev_call_invite ?c (inv_type payload) sid (user_name s sid))]"
    using assms(1) by (simp add: on_call_invite_def Let_def user_name_def)
  have notme: "sid \<notin> set (recipients ?s1 (RoomExcept sid (the (inv_to payload))))"
    by simp
  have act: "has (activeCalls ?s1) ?c" by (simp add: has_invite)
  from run_keeps_session [OF assms(2) act]
  have "has (activeCalls (run ?s1 evs)) ?c" and "end_times ?c (run ?s1 evs) = end_times ?c ?s1"
    by simp_all
  then show ?thesis using eff notme by (simp add: end_times_invite)
qed

theorem invite_direct_no_timeout_witness:
  "truthy (inv_to \<lparr>inv_callId = ''c1'', inv_room = None, inv_type = video, inv_to = Some ''B''\<rparr>) \<and>
   \<not> ends_call ''c1'' (On_message \<lparr>in_text = ''hello'', in_room = None\<rparr> Not_connected) \<and>
   \<not> ends_call ''c1'' (On_call_leave ''c0'') \<and>
   has (activeCalls (run (fst (on_call_invite ''A'' 2000 2000
        \<lparr>inv_callId = ''c1'', inv_room = None, inv_type = video, inv_to = Some ''B''\<rparr>
        (run (server0 False) [(''A'', 1000, On_connection), (''B'', 1001, On_connection)])))
      [(''B'', 50000, On_message \<lparr>in_text = ''hello'', in_room = None\<rparr> Not_connected),
       (''B'', 99999, On_call_leave ''c0'')])) ''c1'' \<and>
   end_times ''c1'' (run (fst (on_call_invite ''A'' 2000 2000
        \<lparr>inv_callId = ''c1'', inv_room = None, inv_type = video, inv_to = Some ''B''\<rparr>
        (run (server0 False) [(''A'', 1000, On_connection), (''B'', 1001, On_connection)])))
      [(''B'', 50000, On_message \<lparr>in_text = ''hello'', in_room = None\<rparr> Not_connected),
       (''B'', 99999, On_call_leave ''c0'')]) = [None]"
  using invite_direct_no_timeout [of
      "\<lparr>inv_callId = ''c1'', inv_room = None, inv_type = video, inv_to = Some ''B''\<rparr>"
      "[(''B'', 50000, On_message \<lparr>in_text = ''hello'', in_room = None\<rparr> Not_connected),
        (''B'', 99999, On_call_leave ''c0'')]"
      "''A''" 2000 2000
      "run (server0 False) [(''A'', 1000, On_connection), (''B'', 1001, On_connection)]"]
  by (simp add: conc_defs end_times_def)

text \<open>
  Claim C1 fails: \<open>A\<close> invites \<open>B\<close> to the video call \<open>c1\<close> at clock reading 2000 and
  \<open>B\<close> never answers.  The invite's only effect is its relay to \<open>B\<close>; the next event
  the server sees, a connection at clock reading 99999, has no effect for \<open>A\<close>; and then
  \<open>c1\<close> is still active and its log entry has no end time.
\<close>

theorem invite_unanswered_counterexample:
  "snd (on_call_invite ''A'' 2000 2000
      \<lparr>inv_callId = ''c1'', inv_room = None, inv_type = video, inv_to = Some ''B''\<rparr>
      (run (server0 False) [(''A'', 1000, On_connection), (''B'', 1001, On_connection)]))
     = [Emit (RoomExcept ''A'' ''B'') (Ev_call_invite ''c1'' video ''A'' None)] \<and>
   recipients (run (server0 False) [(''A'', 1000, On_connection), (''B'', 1001, On_connection),
       (''A'', 2000, On_call_invite
          \<lparr>inv_callId = ''c1'', inv_room = None, inv_type = video, inv_to = Some ''B''\<rparr> 2000)])
     (RoomExcept ''A'' ''B'') = [''B''] \<and>
   snd (step (run (server0 False) [(''A'', 1000, On_connection), (''B'', 1001, On_connection),
       (''A'', 2000, On_call_invite
          \<lparr>inv_callId = ''c1'', inv_room = None, inv_type = video, inv_to = Some ''B''\<rparr> 2000)])
     (''C'', 99999, On_connection)) = [] \<and>
   map_of (activeCalls (run (server0 False) [(''A'', 1000, On_connection), (''B'', 1001, On_connection),
       (''A'', 2000, On_call_invite
          \<lparr>inv_callId = ''c1'', inv_room = None, inv_type = video, inv_to = Some ''B''\<rparr> 2000),
       (''C'', 99999, On_connection)])) ''c1''
     = Some \<lparr>room = None, type' = video, participants = [], startedAt = 2000, initiator = ''A''\<rparr> \<and>
   callLogs (run (server0 False) [(''A'', 1000, On_connection), (''B'', 1001, On_connection),
       (''A'', 2000, On_call_invite
          \<lparr>inv_callId = ''c1'', inv_room = None, inv_type = video, inv_to = Some ''B''\<rparr> 2000),
       (''C'', 99999, On_connection)])
     = [\<lparr>callId = ''c1'', log_room = None, log_type = video, log_startedAt = 2000, endedAt = None,
         log_initiator = ''A'', log_participants = []\<rparr>]"
  by (simp add: conc_defs)

section \<open>Disconnect and call sessions\<close>

text \<open>
  Claim C3 fails: \<open>A\<close> invites, joins the call \<open>c1\<close> and disconnects.  Afterwards
  \<open>c1\<close> is still active with \<open>A\<close> as its participant, and its log entry has no end
  time.
\<close>

theorem disconnect_mid_call_counterexample:
  "map_of (activeCalls (run (server0 False)
     [(''A'', 1, On_connection), (''B'', 2, On_connection),
      (''A'', 3, On_call_invite \<lparr>inv_callId = ''c1'', inv_room = None, inv_type = video, inv_to = None\<rparr> 3),
      (''A'', 4, On_call_join ''c1''), (''A'', 5, On_disconnect)])) ''c1''
     = Some \<lparr>room = None, type' = video, participants = [''A''], startedAt = 3, initiator = ''A''\<rparr> \<and>
   callLogs (run (server0 False)
     [(''A'', 1, On_connection), (''B'', 2, On_connection),
      (''A'', 3, On_call_invite \<lparr>inv_callId = ''c1'', inv_room = None, inv_type = video, inv_to = None\<rparr> 3),
      (''A'', 4, On_call_join ''c1''), (''A'', 5, On_disconnect)])
     = [\<lparr>callId = ''c1'', log_room = None, log_type = video, log_startedAt = 3, endedAt = None,
         log_initiator = ''A'', log_participants = [''A'']\<rparr>] \<and>
   sockets (run (server0 False)
     [(''A'', 1, On_connection), (''B'', 2, On_connection),
      (''A'', 3, On_call_invite \<lparr>inv_callId = ''c1'', inv_room = None, inv_type = video, inv_to = None\<rparr> 3),
      (''A'', 4, On_call_join ''c1''), (''A'', 5, On_disconnect)]) = [''B'']"
  by (simp add: conc_defs)

lemma on_disconnect_calls:
  "activeCalls (fst (on_disconnect sid s)) = activeCalls s"
  "callLogs (fst (on_disconnect sid s)) = callLogs s"
  by (simp_all add: on_disconnect_def socket_close_def Let_def)

lemma on_call_leave_stays:
  assumes "map_of (activeCalls s) c = Some st" and "set_delete sid (participants st) \<noteq> []"
  shows "map_of (activeCalls (fst (on_call_leave sid now c s))) c
           = Some (st\<lparr>participants := set_delete sid (participants st)\<rparr>)"
    and "callLogs (fst (on_call_leave sid now c s)) = callLogs s"
  using assms by (simp_all add: on_call_leave_def Let_def update_conv')

lemma on_call_leave_empties:
  assumes "map_of (activeCalls s) c = Some st" and "set_delete sid (participants st) = []"
  shows "map_of (activeCalls (fst (on_call_leave sid now c s))) c = None"
    and "callLogs (fst (on_call_leave sid now c s)) = log_end c now (callLogs s)"
  using assms by (simp_all add: on_call_leave_def Let_def delete_conv')

lemma on_call_leave_other:
  assumes "c' \<noteq> c"
  shows "map_of (activeCalls (fst (on_call_leave sid now c s))) c' = map_of (activeCalls s) c'"
  using assms by (simp add: on_call_leave_def Let_def update_conv' delete_conv' split: option.splits)

lemma log_end_first:
  assumes "find (\<lambda>l. callId l = c) logs = Some l" and "endedAt l = None"
  shows "find (\<lambda>l. callId l = c) (log_end c now logs) = Some (l\<lparr>endedAt := Some now\<rparr>)"
  using assms by (induction logs) (auto simp: log_end_def)

lemma map_of_invite_other:
  assumes "map_of (activeCalls s) c = Some st"
  shows "map_of (activeCalls (fst (on_call_invite sid now1 now2 payload s))) c = Some st"
proof (cases "inv_callId payload = c")
  case True
  with assms have "has (activeCalls s) (inv_callId payload)" by (simp add: has_def)
  then show ?thesis using assms by (simp add: on_call_invite_def Let_def)
next
  case False
  then show ?thesis using assms by (simp add: on_call_invite_def Let_def update_conv')
qed

lemma participant_join:
  assumes "map_of (activeCalls s) c = Some st" and "p \<in> set (participants st)"
  shows "\<exists>st'. map_of (activeCalls (fst (on_call_join sid c' s))) c = Some st' \<and> p \<in> set (participants st')"
  using assms
  by (cases "c' = c")
    (auto simp: on_call_join_def Let_def update_conv' set_add_def split: option.splits)

lemma participant_leave:
  assumes "map_of (activeCalls s) c = Some st" and "p \<in> set (participants st)"
    and "\<not> (c' = c \<and> sid = p)"
  shows "\<exists>st'. map_of (activeCalls (fst (on_call_leave sid now c' s))) c = Some st' \<and> p \<in> set (participants st')"
proof (cases "c' = c")
  case False
  then show ?thesis using assms on_call_leave_other [of c c' sid now s] by simp
next
  case True
  with assms have "p \<in> set (set_delete sid (participants st))" by (simp add: set_delete_def)
  then have ne: "set_delete sid (participants st) \<noteq> []" by auto
  from on_call_leave_stays(1) [OF assms(1) ne, of now] \<open>p \<in> set (set_delete sid (participants st))\<close>
  show ?thesis using True by simp
qed

lemma participant_endAll:
  assumes "map_of (activeCalls s) c = Some st" and "c' \<noteq> c"
  shows "map_of (activeCalls (fst (on_call_endAll sid now c' s))) c = Some st"
  using assms by (simp add: on_call_endAll_def delete_conv' split: option.splits)

lemma step_keeps_participant:
  assumes "map_of (activeCalls s) c = Some st" and "p \<in> set (participants st)"
    and "\<not> (ev = On_call_leave c \<and> sid = p)" and "ev \<noteq> On_call_endAll c"
  shows "\<exists>st'. map_of (activeCalls (fst (step s (sid, now, ev)))) c = Some st' \<and> p \<in> set (participants st')"
proof (cases ev)
  case (On_call_invite payload now2)
  then show ?thesis using assms map_of_invite_other [OF assms(1)] by simp
next
  case (On_call_join c')
  then show ?thesis using participant_join [OF assms(1,2)] by simp
next
  case (On_call_leave c')
  with assms(3) have "\<not> (c' = c \<and> sid = p)" by simp
  from participant_leave [OF assms(1,2) this] On_call_leave show ?thesis by simp
next
  case (On_call_endAll c')
  with assms(4) have "c' \<noteq> c" by simp
  from participant_endAll [OF assms(1) this] assms(2) On_call_endAll show ?thesis by simp
qed (use assms in \<open>simp_all add: activeCalls_unchanged\<close>)

lemma on_call_endAll_removes:
  assumes "map_of (activeCalls s) c = Some st"
  shows "map_of (activeCalls (fst (on_call_endAll sid now c s))) c = None"
    and "callLogs (fst (on_call_endAll sid now c s)) = log_end c now (callLogs s)"
  using assms by (simp_all add: on_call_endAll_def delete_conv')

text \<open>
  Claim C3, as amended.  The disconnect handler leaves the active calls and the call log
  unchanged.  A participant of a session stays one under every client event except its
  own \<open>call:leave\<close> for that call id and a \<open>call:endAll\<close> for that call id from any
  socket.  Its own \<open>call:leave\<close> touches no other session: when participants remain, the
  session stays active without the socket and the log is unchanged; when none remain, the
  session is removed from the active set and the first log entry with that call id, if
  its end time is absent, gets the clock reading as end time.  A \<open>call:endAll\<close> removes
  the session and ends the log entry in the same way, whatever participants it has.
\<close>

theorem disconnect_keeps_calls_leave_removes:
  "activeCalls (fst (on_disconnect sid s)) = activeCalls s \<and>
   callLogs (fst (on_disconnect sid s)) = callLogs s \<and>
   (\<forall>st p sid' now' ev.
      map_of (activeCalls s) c = Some st \<and> p \<in> set (participants st) \<and>
      \<not> (ev = On_call_leave c \<and> sid' = p) \<and> ev \<noteq> On_call_endAll c \<longrightarrow>
      (\<exists>st'. map_of (activeCalls (fst (step s (sid', now', ev)))) c = Some st' \<and>
             p \<in> set (participants st'))) \<and>
   (\<forall>st. map_of (activeCalls s) c = Some st \<longrightarrow>
      sid \<notin> set (set_delete sid (participants st)) \<and>
      (set_delete sid (participants st) \<noteq> [] \<longrightarrow>
         map_of (activeCalls (fst (on_call_leave sid now c s))) c
           = Some (st\<lparr>participants := set_delete sid (participants st)\<rparr>) \<and>
         callLogs (fst (on_call_leave sid now c s)) = callLogs s) \<and>
      (set_delete sid (participants st) = [] \<longrightarrow>
         map_of (activeCalls (fst (on_call_leave sid now c s))) c = None \<and>
         callLogs (fst (on_call_leave sid now c s)) = log_end c now (callLogs s)) \<and>
      map_of (activeCalls (fst (on_call_endAll sid now c s))) c = None \<and>
      callLogs (fst (on_call_endAll sid now c s)) = log_end c now (callLogs s)) \<and>
   (\<forall>c'. c' \<noteq> c \<longrightarrow>
      map_of (activeCalls (fst (on_call_leave sid now c s))) c' = map_of (activeCalls s) c') \<and>
   (\<forall>logs l. find (\<lambda>l. callId l = c) logs = Some l \<and> endedAt l = None \<longrightarrow>
      find (\<lambda>l. callId l = c) (log_end c now logs) = Some (l\<lparr>endedAt := Some now\<rparr>))"
proof -
  have a: "sid \<notin> set (set_delete sid ps)" for ps :: "string list"
    by (simp add: set_delete_def)
  have keep: "\<forall>st p sid' now' ev.
      map_of (activeCalls s) c = Some st \<and> p \<in> set (participants st) \<and>
      \<not> (ev = On_call_leave c \<and> sid' = p) \<and> ev \<noteq> On_call_endAll c \<longrightarrow>
      (\<exists>st'. map_of (activeCalls (fst (step s (sid', now', ev)))) c = Some st' \<and>
             p \<in> set (participants st'))"
    using step_keeps_participant [of s c] by blast
  have own: "\<forall>st. map_of (activeCalls s) c = Some st \<longrightarrow>
      sid \<notin> set (set_delete sid (participants st)) \<and>
      (set_delete sid (participants st) \<noteq> [] \<longrightarrow>
         map_of (activeCalls (fst (on_call_leave sid now c s))) c
           = Some (st\<lparr>participants := set_delete sid (participants st)\<rparr>) \<and>
         callLogs (fst (on_call_leave sid now c s)) = callLogs s) \<and>
      (set_delete sid (participants st) = [] \<longrightarrow>
         map_of (activeCalls (fst (on_call_leave sid now c s))) c = None \<and>
         callLogs (fst (on_call_leave sid now c s)) = log_end c now (callLogs s)) \<and>
      map_of (activeCalls (fst (on_call_endAll sid now c s))) c = None \<and>
      callLogs (fst (on_call_endAll sid now c s)) = log_end c now (callLogs s)"
    using on_call_leave_stays [of s c _ sid now] on_call_leave_empties [of s c _ sid now]
      on_call_endAll_removes [of s c _ sid now] a
    by blast
  have other: "\<forall>c'. c' \<noteq> c \<longrightarrow>
      map_of (activeCalls (fst (on_call_leave sid now c s))) c' = map_of (activeCalls s) c'"
    using on_call_leave_other [of _ c sid now s] by blast
  have fin: "\<forall>logs l. find (\<lambda>l. callId l = c) logs = Some l \<and> endedAt l = None \<longrightarrow>
      find (\<lambda>l. callId l = c) (log_end c now logs) = Some (l\<lparr>endedAt := Some now\<rparr>)"
    using log_end_first [of c _ _ now] by blast
  from on_disconnect_calls [of sid s] keep own other fin show ?thesis by blast
qed

theorem disconnect_keeps_calls_leave_removes_witness:
  "map_of (activeCalls (run (server0 False)
     [(''A'', 1, On_connection), (''B'', 2, On_connection),
      (''A'', 3, On_call_invite \<lparr>inv_callId = ''c1'', inv_room = None, inv_type = video, inv_to = None\<rparr> 3),
      (''A'', 4, On_call_join ''c1'')])) ''c1''
     = Some \<lparr>room = None, type' = video, participants = [''A''], startedAt = 3, initiator = ''A''\<rparr> \<and>
   ''A'' \<in> set [''A''] \<and> set_delete ''A'' [''A''] = [] \<and>
   (\<exists>st'. map_of (activeCalls (fst (step (run (server0 False)
     [(''A'', 1, On_connection), (''B'', 2, On_connection),
      (''A'', 3, On_call_invite \<lparr>inv_callId = ''c1'', inv_room = None, inv_type = video, inv_to = None\<rparr> 3),
      (''A'', 4, On_call_join ''c1'')]) (''B'', 5, On_call_leave ''c1'')))) ''c1'' = Some st' \<and>
      ''A'' \<in> set (participants st')) \<and>
   map_of (activeCalls (fst (on_call_leave ''A'' 9 ''c1'' (run (server0 False)
     [(''A'', 1, On_connection), (''B'', 2, On_connection),
      (''A'', 3, On_call_invite \<lparr>inv_callId = ''c1'', inv_room = None, inv_type = video, inv_to = None\<rparr> 3),
      (''A'', 4, On_call_join ''c1'')])))) ''c1'' = None \<and>
   callLogs (fst (on_call_leave ''A'' 9 ''c1'' (run (server0 False)
     [(''A'', 1, On_connection), (''B'', 2, On_connection),
      (''A'', 3, On_call_invite \<lparr>inv_callId = ''c1'', inv_room = None, inv_type = video, inv_to = None\<rparr> 3),
      (''A'', 4, On_call_join ''c1'')])))
     = log_end ''c1'' 9 (callLogs (run (server0 False)
     [(''A'', 1, On_connection), (''B'', 2, On_connection),
      (''A'', 3, On_call_invite \<lparr>inv_callId = ''c1'', inv_room = None, inv_type = video, inv_to = None\<rparr> 3),
      (''A'', 4, On_call_join ''c1'')])) \<and>
   map endedAt (log_end ''c1'' 9 (callLogs (run (server0 False)
     [(''A'', 1, On_connection), (''B'', 2, On_connection),
      (''A'', 3, On_call_invite \<lparr>inv_callId = ''c1'', inv_room = None, inv_type = video, inv_to = None\<rparr> 3),
      (''A'', 4, On_call_join ''c1'')]))) = [Some 9]"
proof -
  let ?s = "run (server0 False)
     [(''A'', 1, On_connection), (''B'', 2, On_connection),
      (''A'', 3, On_call_invite \<lparr>inv_callId = ''c1'', inv_room = None, inv_type = video, inv_to = None\<rparr> 3),
      (''A'', 4, On_call_join ''c1'')]"
  let ?st = "\<lparr>room = None, type' = video, participants = [''A''], startedAt = 3, initiator = ''A''\<rparr>"
  have m: "map_of (activeCalls ?s) ''c1'' = Some ?st" by (simp add: conc_defs)
  have e: "set_delete ''A'' (participants ?st) = []" by (simp add: set_delete_def)
  have p: "''A'' \<in> set (participants ?st)" by simp
  have ev: "\<not> (On_call_leave ''c1'' = On_call_leave ''c1'' \<and> ''B'' = ''A'')"
    "On_call_leave ''c1'' \<noteq> On_call_endAll ''c1''" by simp_all
  note t = disconnect_keeps_calls_leave_removes [of "''A''" ?s "''c1''" 9]
  note keep = t [THEN conjunct2, THEN conjunct2, THEN conjunct1, rule_format,
      of ?st "''A''" "On_call_leave ''c1''" "''B''" 5]
  note own = t [THEN conjunct2, THEN conjunct2, THEN conjunct2, THEN conjunct1, rule_format, OF m]
  note emptied = own [THEN conjunct2, THEN conjunct2, THEN conjunct1, rule_format, OF e]
  have kept: "\<exists>st'. map_of (activeCalls (fst (step ?s (''B'', 5, On_call_leave ''c1'')))) ''c1''
      = Some st' \<and> ''A'' \<in> set (participants st')"
    by (rule keep) (intro conjI m p ev)
  have gone: "map_of (activeCalls (fst (on_call_leave ''A'' 9 ''c1'' ?s))) ''c1'' = None"
    by (rule emptied [THEN conjunct1])
  have logs: "callLogs (fst (on_call_leave ''A'' 9 ''c1'' ?s)) = log_end ''c1'' 9 (callLogs ?s)"
    by (rule emptied [THEN conjunct2])
  have ended: "map endedAt (log_end ''c1'' 9 (callLogs ?s)) = [Some 9]" by (simp add: conc_defs)
  have mem: "''A'' \<in> set [''A'']" and del: "set_delete ''A'' [''A''] = []"
    by (simp_all add: set_delete_def)
  show ?thesis by (intro conjI) (fact m mem del kept gone logs ended)+
qed

section \<open>Room membership\<close>

lemma in_set_set_add: "x \<in> set (set_add y xs) \<longleftrightarrow> x = y \<or> x \<in> set xs"
  by (auto simp: set_add_def)

lemma in_set_set_delete: "x \<in> set (set_delete y xs) \<longleftrightarrow> x \<noteq> y \<and> x \<in> set xs"
  by (auto simp: set_delete_def)

lemma in_room_socket_join:
  "is_in_room (socket_join sid0 r0 s) sid r \<longleftrightarrow> is_in_room s sid r \<or> (sid = sid0 \<and> r = r0 \<and> r \<noteq> sid)"
  by (auto simp: is_in_room_def socket_join_def in_set_set_add)

lemma in_room_socket_leave:
  "is_in_room (socket_leave sid0 r0 s) sid r \<longleftrightarrow> is_in_room s sid r \<and> \<not> (sid = sid0 \<and> r = r0)"
  by (auto simp: is_in_room_def socket_leave_def in_set_set_delete)

lemma in_room_fields:
  "is_in_room (s\<lparr>userRooms := u\<rparr>) sid r = is_in_room s sid r"
  "is_in_room (s\<lparr>sockets := ss\<rparr>) sid r = is_in_room s sid r"
  by (simp_all add: is_in_room_def)

lemma prev_room_socket:
  "prev_room (socket_join sid0 r0 s) sid = prev_room s sid"
  "prev_room (socket_leave sid0 r0 s) sid = prev_room s sid"
  "prev_room (s\<lparr>sockets := ss\<rparr>) sid = prev_room s sid"
  by (simp_all add: prev_room_def socket_join_def socket_leave_def)

lemma prev_room_update:
  "prev_room (s\<lparr>userRooms := AList.update sid0 v (userRooms s')\<rparr>) sid =
     (if sid = sid0 then (if truthy v then v else None) else prev_room s' sid)"
  by (cases v) (auto simp: prev_room_def update_conv')

lemma userRooms_socket:
  "userRooms (socket_join sid0 r0 s) = userRooms s"
  "userRooms (socket_leave sid0 r0 s) = userRooms s"
  by (simp_all add: socket_join_def socket_leave_def)

lemma prev_room_truthy: "prev_room s sid = Some r \<Longrightarrow> r \<noteq> []"
  by (auto simp: prev_room_def split: option.splits if_splits)

text \<open>The state after joinRoom, in terms of membership and the recorded room.\<close>

lemma joinRoom_in_room:
  "is_in_room (fst (on_joinRoom sid0 rm s)) sid r \<longleftrightarrow>
     (is_in_room s sid r \<and> \<not> (sid = sid0 \<and> prev_room s sid0 = Some r))
     \<or> (sid = sid0 \<and> truthy rm \<and> rm = Some r \<and> r \<noteq> sid)"
  by (cases rm; cases "prev_room s sid0")
    (auto simp: on_joinRoom_def Let_def in_room_socket_join in_room_socket_leave in_room_fields)

lemma joinRoom_prev_room:
  "prev_room (fst (on_joinRoom sid0 rm s)) sid =
     (if sid = sid0 then (if truthy rm then rm else None) else prev_room s sid)"
  by (cases rm; cases "prev_room s sid0")
    (auto simp: on_joinRoom_def Let_def prev_room_update prev_room_socket userRooms_socket)

lemma leaveRoom_in_room:
  "is_in_room (fst (on_leaveRoom sid0 s)) sid r \<longleftrightarrow>
     is_in_room s sid r \<and> \<not> (sid = sid0 \<and> prev_room s sid0 = Some r)"
  by (cases "prev_room s sid0")
    (auto simp: on_leaveRoom_def Let_def in_room_socket_leave in_room_fields)

lemma leaveRoom_prev_room:
  "prev_room (fst (on_leaveRoom sid0 s)) sid =
     (if sid = sid0 then None else prev_room s sid)"
  by (cases "prev_room s sid0")
    (auto simp: on_leaveRoom_def Let_def prev_room_update prev_room_socket userRooms_socket)

lemma tracked_server0: "tracked (server0 rd)"
  by (simp add: tracked_def is_in_room_def server0_def)

lemma tracked_connection: "tracked s \<Longrightarrow> tracked (fst (on_connection sid0 s))"
  by (auto simp: tracked_def on_connection_def in_room_socket_join in_room_fields prev_room_socket)

lemma tracked_joinRoom: "tracked s \<Longrightarrow> tracked (fst (on_joinRoom sid0 rm s))"
  unfolding tracked_def joinRoom_in_room joinRoom_prev_room by auto

lemma tracked_leaveRoom: "tracked s \<Longrightarrow> tracked (fst (on_leaveRoom sid0 s))"
  unfolding tracked_def leaveRoom_in_room leaveRoom_prev_room by auto

lemma tracked_single:
  assumes "tracked s" and "is_in_room s sid r1" and "is_in_room s sid r2"
  shows "r1 = r2"
proof -
  from assms have "prev_room s sid = Some r1" and "prev_room s sid = Some r2"
    unfolding tracked_def by blast+
  then show ?thesis by simp
qed

lemma tracked_fields:
  "rooms s' = rooms s \<Longrightarrow> userRooms s' = userRooms s \<Longrightarrow> tracked s \<Longrightarrow> tracked s'"
  by (simp add: tracked_def is_in_room_def prev_room_def)

lemma rooms_unchanged:
  "rooms (fst (on_message sid now msg db s)) = rooms s"
  "rooms (fst (on_webrtc_offer sid offer s)) = rooms s"
  "rooms (fst (on_call_busy sid to s)) = rooms s"
  "rooms (fst (on_call_invite sid now now2 payload s)) = rooms s"
  "rooms (fst (on_call_join sid c s)) = rooms s"
  "rooms (fst (on_call_leave sid now c s)) = rooms s"
  "rooms (fst (on_call_endAll sid now c s)) = rooms s"
        apply (cases db; simp add: on_message_def Let_def)
       apply (simp add: on_webrtc_offer_def)
      apply (simp add: on_call_busy_def)
     apply (simp add: on_call_invite_def Let_def)
    apply (simp add: on_call_join_def Let_def split: option.splits)
   apply (simp add: on_call_leave_def Let_def split: option.splits)
  apply (simp add: on_call_endAll_def split: option.splits)
  done

lemma userRooms_unchanged:
  "userRooms (fst (on_message sid now msg db s)) = userRooms s"
  "userRooms (fst (on_webrtc_offer sid offer s)) = userRooms s"
  "userRooms (fst (on_call_busy sid to s)) = userRooms s"
  "userRooms (fst (on_call_invite sid now now2 payload s)) = userRooms s"
  "userRooms (fst (on_call_join sid c s)) = userRooms s"
  "userRooms (fst (on_call_leave sid now c s)) = userRooms s"
  "userRooms (fst (on_call_endAll sid now c s)) = userRooms s"
        apply (cases db; simp add: on_message_def Let_def)
       apply (simp add: on_webrtc_offer_def)
      apply (simp add: on_call_busy_def)
     apply (simp add: on_call_invite_def Let_def)
    apply (simp add: on_call_join_def Let_def split: option.splits)
   apply (simp add: on_call_leave_def Let_def split: option.splits)
  apply (simp add: on_call_endAll_def split: option.splits)
  done

lemma tracked_disconnect: "tracked s \<Longrightarrow> tracked (fst (on_disconnect sid0 s))"
  by (auto simp: tracked_def on_disconnect_def socket_close_def Let_def is_in_room_def prev_room_def
      in_set_set_delete)

lemma tracked_join:
  assumes "prev_room s sid0 = None" and "tracked s"
  shows "tracked (fst (on_join sid0 payload s))"
  unfolding tracked_def
proof (intro allI impI)
  fix sid r
  assume "is_in_room (fst (on_join sid0 payload s)) sid r"
  then have "is_in_room s sid r" by (simp add: on_join_def Let_def is_in_room_def)
  with assms(2) have c: "prev_room s sid = Some r" unfolding tracked_def by blast
  with assms(1) have "sid \<noteq> sid0" by auto
  then have "prev_room (fst (on_join sid0 payload s)) sid = prev_room s sid"
    by (simp add: on_join_def Let_def prev_room_def update_conv')
  with c show "prev_room (fst (on_join sid0 payload s)) sid = Some r" by simp
qed

lemma tracked_step_all:
  assumes "registers_outside_room s (sid, now, ev)" and "tracked s"
  shows "tracked (fst (step s (sid, now, ev)))"
proof (cases ev)
  case (On_join payload)
  with assms show ?thesis by (simp add: tracked_join)
next
  case On_disconnect
  with assms show ?thesis by (simp add: tracked_disconnect)
qed (use assms in \<open>simp_all add: tracked_connection tracked_joinRoom tracked_leaveRoom
      tracked_fields [OF rooms_unchanged(1) userRooms_unchanged(1)]
      tracked_fields [OF rooms_unchanged(2) userRooms_unchanged(2)]
      tracked_fields [OF rooms_unchanged(3) userRooms_unchanged(3)]
      tracked_fields [OF rooms_unchanged(4) userRooms_unchanged(4)]
      tracked_fields [OF rooms_unchanged(5) userRooms_unchanged(5)]
      tracked_fields [OF rooms_unchanged(6) userRooms_unchanged(6)]
      tracked_fields [OF rooms_unchanged(7) userRooms_unchanged(7)]\<close>)

lemma tracked_run_all:
  "registered_first s evs \<Longrightarrow> tracked s \<Longrightarrow> tracked (run s evs)"
proof (induction evs arbitrary: s)
  case Nil
  then show ?case by simp
next
  case (Cons e evs)
  obtain sid now ev where e: "e = (sid, now, ev)" by (cases e)
  from Cons.prems have "tracked (fst (step s e))" by (simp add: e tracked_step_all)
  with Cons show ?case by simp
qed

text \<open>
  On every trace in which sockets register only while \<open>userRooms\<close> records no room for
  them, every socket is in at most one room (the room of its own id apart); after a
  further \<open>joinRoom\<close> the only room the socket is in is the new one, which it is a member
  of when the room name is truthy; after a further \<open>leaveRoom\<close> the socket is in no
  room.
\<close>

lemma single_room_registered_first:
  assumes "registered_first (server0 rd) evs"
  shows "(\<forall>sid r1 r2. is_in_room (run (server0 rd) evs) sid r1 \<and> is_in_room (run (server0 rd) evs) sid r2
            \<longrightarrow> r1 = r2) \<and>
         (\<forall>sid rm r. is_in_room (fst (on_joinRoom sid rm (run (server0 rd) evs))) sid r \<longrightarrow> rm = Some r) \<and>
         (\<forall>sid rm. truthy rm \<longrightarrow>
            sid \<in> set (rooms (fst (on_joinRoom sid rm (run (server0 rd) evs))) (the rm))) \<and>
         (\<forall>sid r. \<not> is_in_room (fst (on_leaveRoom sid (run (server0 rd) evs))) sid r)"
proof -
  let ?s = "run (server0 rd) evs"
  have t: "tracked ?s" using assms tracked_server0 by (rule tracked_run_all)
  have one: "\<forall>sid r1 r2. is_in_room ?s sid r1 \<and> is_in_room ?s sid r2 \<longrightarrow> r1 = r2"
    using t tracked_single by blast
  have join1: "\<forall>sid rm r. is_in_room (fst (on_joinRoom sid rm ?s)) sid r \<longrightarrow> rm = Some r"
  proof (intro allI impI)
    fix sid rm r
    assume a: "is_in_room (fst (on_joinRoom sid rm ?s)) sid r"
    have "tracked (fst (on_joinRoom sid rm ?s))" using t by (rule tracked_joinRoom)
    with a have "prev_room (fst (on_joinRoom sid rm ?s)) sid = Some r" unfolding tracked_def by blast
    then show "rm = Some r" by (simp add: joinRoom_prev_room split: if_splits)
  qed
  have join2: "\<forall>sid rm. truthy rm \<longrightarrow> sid \<in> set (rooms (fst (on_joinRoom sid rm ?s)) (the rm))"
    by (auto simp: on_joinRoom_def Let_def socket_join_def socket_leave_def in_set_set_add
        split: option.splits)
  have leave: "\<forall>sid r. \<not> is_in_room (fst (on_leaveRoom sid ?s)) sid r"
  proof (intro allI notI)
    fix sid r
    assume a: "is_in_room (fst (on_leaveRoom sid ?s)) sid r"
    have "tracked (fst (on_leaveRoom sid ?s))" using t by (rule tracked_leaveRoom)
    with a have "prev_room (fst (on_leaveRoom sid ?s)) sid = Some r" unfolding tracked_def by blast
    then show False by (simp add: leaveRoom_prev_room)
  qed
  from one join1 join2 leave show ?thesis by blast
qed

text \<open>
  Claim C5 does not hold of the server.  \<open>join\<close> sets the socket's entry of \<open>userRooms\<close>
  to \<open>null\<close> and does not leave the adapter's room.  A socket that registers while it is in
  \<open>r1\<close> is therefore, after its next \<open>joinRoom\<close> for \<open>r2\<close>, a member of both \<open>r1\<close>
  and \<open>r2\<close>, and after a \<open>leaveRoom\<close> instead it is still a member of \<open>r1\<close>.
\<close>

theorem register_in_room_breaks_single_room:
  "is_in_room (run (server0 False)
     [(''A'', 1, On_connection), (''A'', 2, On_joinRoom (Some ''r1'')),
      (''A'', 3, On_join (Join_name ''alice'')), (''A'', 4, On_joinRoom (Some ''r2''))]) ''A'' ''r1'' \<and>
   is_in_room (run (server0 False)
     [(''A'', 1, On_connection), (''A'', 2, On_joinRoom (Some ''r1'')),
      (''A'', 3, On_join (Join_name ''alice'')), (''A'', 4, On_joinRoom (Some ''r2''))]) ''A'' ''r2'' \<and>
   ''r1'' \<noteq> ''r2'' \<and>
   is_in_room (run (server0 False)
     [(''A'', 1, On_connection), (''A'', 2, On_joinRoom (Some ''r1'')),
      (''A'', 3, On_join (Join_name ''alice'')), (''A'', 4, On_leaveRoom)]) ''A'' ''r1''"
  by (simp add: conc_defs is_in_room_def)

end
